theory Spec2Isabelle
  imports Main "HOL-Library.Word"
begin

unbundle bit_operations_syntax

section \<open>Outcomes of a Go call\<close>

text \<open>
  A Go byte is an 8-bit word. A call of the codec either returns its results or panics
  (an out-of-range slice expression or index).
\<close>

type_synonym byte = "8 word"

datatype 'a go = Panic | Return 'a

section \<open>The SUBACK packet (package message)\<close>

text \<open>
  \<^verbatim>\<open>type SubackMessage struct { ReturnCodes []byte; PacketID uint16 }\<close>
\<close>

record SubackMessage =
  ReturnCodes :: "byte list"
  PacketID :: "16 word"

text \<open>The message type code of SUBACK (the package's tests fix it to 9).\<close>

definition SUBACK :: byte where
  "SUBACK = 9"

text \<open>
  Modelled from the spec: \<^verbatim>\<open>validQOS\<close> and the constant \<^verbatim>\<open>QOSFailure\<close> are used by
  the SUBACK codec but are not among the source files. The spec gives a QoS as one of
  0, 1, 2 and the SUBACK failure return code as 0x80.
\<close>

definition validQOS :: "byte \<Rightarrow> bool" where
  "validQOS qos = (qos = 0 \<or> qos = 1 \<or> qos = 2)"

definition QOSFailure :: byte where
  "QOSFailure = 0x80"

text \<open>
  The errors the codec builds with \<^verbatim>\<open>fmt.Errorf\<close>, one constructor per message, and the
  error of the header functions passed through (\<open>'e\<close> is the header functions' error).
\<close>

datatype 'e codec_error =
    HeaderError 'e
  | InsufficientBuffer nat nat
  | RemainingLength int
  | InvalidReturnCode byte nat

text \<open>
  The loop \<^verbatim>\<open>for i, code := range sm.ReturnCodes\<close> of both Decode and Encode: the first
  code that is neither a valid QoS nor the failure code, with its index.
\<close>

fun first_invalid_code :: "nat \<Rightarrow> byte list \<Rightarrow> (byte \<times> nat) option" where
  "first_invalid_code i [] = None"
| "first_invalid_code i (code # codes) =
     (if \<not> validQOS code \<and> code \<noteq> QOSFailure then Some (code, i)
      else first_invalid_code (Suc i) codes)"

text \<open>\<^verbatim>\<open>binary.BigEndian.Uint16(b)\<close> and \<^verbatim>\<open>binary.BigEndian.PutUint16(b, v)\<close> on the first two bytes.\<close>

definition be_uint16 :: "byte \<Rightarrow> byte \<Rightarrow> 16 word" where
  "be_uint16 b0 b1 = push_bit 8 (ucast b0) OR ucast b1"

definition be_bytes16 :: "16 word \<Rightarrow> byte list" where
  "be_bytes16 v = [ucast (drop_bit 8 v), ucast v]"

text \<open>
  A Go byte slice \<^verbatim>\<open>s\<close>: the \<^verbatim>\<open>len(s)\<close> elements it shows, and the elements of its backing
  array from \<^verbatim>\<open>len(s)\<close> up to \<^verbatim>\<open>cap(s)\<close>. An index \<^verbatim>\<open>s[i]\<close> and the upper bound of
  \<^verbatim>\<open>s[low:]\<close> are checked against the length; the upper bound of \<^verbatim>\<open>s[low:high]\<close> is
  checked against the capacity, so that such an expression can show elements that lie
  beyond the length.
\<close>

record byteslice =
  elems :: "byte list"
  spare :: "byte list"

definition cap :: "byteslice \<Rightarrow> nat" where
  "cap s = length (elems s) + length (spare s)"

text \<open>
  \<^verbatim>\<open>SubackMessage.Decode\<close>. The function \<^verbatim>\<open>headerDecode\<close> is not among the source files:
  it is the parameter \<open>headerDecode\<close>, called as in the source with the buffer and the
  expected type, and returning the header length, the flags, the remaining length and
  an error. The result is the byte count \<^verbatim>\<open>total\<close>, the error and the receiver after
  the call. The packet id is read below the length of the buffer; the return codes are
  the slice \<^verbatim>\<open>src[total : total+rcl]\<close>, which panics only beyond the capacity.
\<close>

definition Decode ::
  "(byteslice \<Rightarrow> byte \<Rightarrow> nat \<times> byte \<times> int \<times> 'e option) \<Rightarrow> SubackMessage \<Rightarrow> byteslice
     \<Rightarrow> (nat \<times> 'e codec_error option \<times> SubackMessage) go" where
  "Decode headerDecode sm src =
     (case headerDecode src SUBACK of
        (hl, flags, rl, Some err) \<Rightarrow> Return (hl, Some (HeaderError err), sm)
      | (hl, flags, rl, None) \<Rightarrow>
          if length (elems src) < hl + 2 then
            Return (hl, Some (InsufficientBuffer (hl + 2) (length (elems src))), sm)
          else if rl \<le> 2 then
            Return (hl, Some (RemainingLength rl), sm)
          else
            let sm1 = sm\<lparr>PacketID := be_uint16 (elems src ! hl) (elems src ! (hl + 1))\<rparr>;
                total = hl + 2;
                rcl = nat (rl - 2)
            in if cap src < total + rcl then Panic
               else
                 let sm2 = sm1\<lparr>ReturnCodes := take rcl (drop total (elems src @ spare src))\<rparr>;
                     total2 = total + length (ReturnCodes sm2)
                 in (case first_invalid_code 0 (ReturnCodes sm2) of
                       Some (code, i) \<Rightarrow> Return (total2, Some (InvalidReturnCode code i), sm2)
                     | None \<Rightarrow> Return (total2, None, sm2)))"

text \<open>
  \<^verbatim>\<open>SubackMessage.len\<close> and \<^verbatim>\<open>SubackMessage.Len\<close>; \<^verbatim>\<open>headerLen\<close> is not among the source
  files and is a parameter.
\<close>

definition payload_len :: "SubackMessage \<Rightarrow> nat" where
  "payload_len sm = 2 + length (ReturnCodes sm)"

definition Len :: "(nat \<Rightarrow> nat) \<Rightarrow> SubackMessage \<Rightarrow> nat" where
  "Len headerLen sm = headerLen (payload_len sm) + payload_len sm"

text \<open>\<^verbatim>\<open>copy(dst[at:], bs)\<close>: as many bytes as fit, the rest of \<open>dst\<close> unchanged.\<close>

definition copy_into :: "byte list \<Rightarrow> nat \<Rightarrow> byte list \<Rightarrow> byte list" where
  "copy_into dst at bs =
     take at dst @ take (length dst - at) bs @ drop (at + length bs) dst"

text \<open>
  \<^verbatim>\<open>SubackMessage.Encode\<close>. \<^verbatim>\<open>headerEncode\<close> is not among the source files: it is the
  parameter \<open>headerEncode\<close>, called with the buffer, the flags, the remaining length, the
  total length and the type, and returning the bytes written, the buffer after the
  call and an error. The result is the byte count, the error and the buffer.
  \<^verbatim>\<open>PutUint16(dst[total:], ...)\<close> panics when fewer than two elements are left below
  the length.
\<close>

definition Encode ::
  "(byteslice \<Rightarrow> byte \<Rightarrow> nat \<Rightarrow> nat \<Rightarrow> byte \<Rightarrow> nat \<times> byteslice \<times> 'e option) \<Rightarrow> (nat \<Rightarrow> nat)
     \<Rightarrow> SubackMessage \<Rightarrow> byteslice \<Rightarrow> (nat \<times> 'e codec_error option \<times> byteslice) go" where
  "Encode headerEncode headerLen sm dst =
     (case first_invalid_code 0 (ReturnCodes sm) of
        Some (code, i) \<Rightarrow> Return (0, Some (InvalidReturnCode code i), dst)
      | None \<Rightarrow>
          (case headerEncode dst 0 (payload_len sm) (Len headerLen sm) SUBACK of
             (n, dst1, Some err) \<Rightarrow> Return (n, Some (HeaderError err), dst1)
           | (n, dst1, None) \<Rightarrow>
               if length (elems dst1) < n + 2 then Panic
               else
                 let dst2 = dst1\<lparr>elems := copy_into (elems dst1) n (be_bytes16 (PacketID sm))\<rparr>;
                     total = n + 2;
                     dst3 = dst2\<lparr>elems := copy_into (elems dst2) total (ReturnCodes sm)\<rparr>
                 in Return (total + length (ReturnCodes sm), None, dst3)))"

text \<open>
  Instances of the two header parameters for the concrete checks below: the fixed
  header of a packet whose remaining length fits one byte (first byte type and flags,
  second byte the remaining length).
\<close>

definition header1Decode :: "byteslice \<Rightarrow> byte \<Rightarrow> nat \<times> byte \<times> int \<times> string option" where
  "header1Decode src mt =
     (if length (elems src) < 2 then (0, 0, 0, Some ''buffer'')
      else if drop_bit 4 (elems src ! 0) \<noteq> mt then (1, 0, 0, Some ''type'')
      else if (elems src ! 0) AND 0x0f \<noteq> 0 then (1, 0, 0, Some ''flags'')
      else if 127 < unat (elems src ! 1) then (2, 0, 0, Some ''length'')
      else (2, (elems src ! 0) AND 0x0f, int (unat (elems src ! 1)), None))"

definition header1Encode ::
  "byteslice \<Rightarrow> byte \<Rightarrow> nat \<Rightarrow> nat \<Rightarrow> byte \<Rightarrow> nat \<times> byteslice \<times> string option" where
  "header1Encode dst flags rl tlen mt =
     (if length (elems dst) < tlen then (0, dst, Some ''buffer'')
      else if 127 < rl then (0, dst, Some ''length'')
      else (2, dst\<lparr>elems := copy_into (elems dst) 0 [push_bit 4 mt OR flags, of_nat rl]\<rparr>, None))"

section \<open>Messages, subscriptions and the topic tree\<close>

text \<open>
  Modelled from the spec: the types \<^verbatim>\<open>packet.Message\<close> and \<^verbatim>\<open>packet.Subscription\<close> are
  not among the source files. The spec gives a message as topic, payload, QoS and
  retain flag, and a subscription as a topic filter with a QoS.
\<close>

record Message =
  Topic :: string
  Payload :: "byte list"
  QOS :: byte
  Retain :: bool

record Subscription =
  Filter :: string
  MaxQOS :: byte

text \<open>
  Modelled from the spec: \<^verbatim>\<open>Message.Copy\<close> is not among the source files; a copy is a
  message with the same fields.
\<close>

definition Copy :: "Message \<Rightarrow> Message" where
  "Copy msg = \<lparr>Topic = Topic msg, Payload = Payload msg, QOS = QOS msg, Retain = Retain msg\<rparr>"

text \<open>
  Modelled from the spec: \<^verbatim>\<open>topic.Tree\<close> (its \<^verbatim>\<open>Set\<close>, \<^verbatim>\<open>Empty\<close> and \<^verbatim>\<open>Search\<close> are
  called by the backend) is not among the source files. The spec describes a prefix
  tree keyed by the levels of a topic, separated by \<open>/\<close>: a node holds the values of the
  topic that ends there and its children by level. \<open>set\<close> makes a value the only one at
  the topic's node, \<open>empty\<close> deletes all values at the exact node, and \<open>search\<close> of a
  topic returns, without duplicates, the values whose stored keys match it level by
  level: a \<open>+\<close> node matches exactly one level, a \<open>#\<close> node matches zero or more
  remaining levels, and a first level \<open>+\<close> or \<open>#\<close> does not match a topic whose first
  level begins with \<open>$\<close>.
\<close>

datatype 'a node = Node (nvalues: "'a list") (children: "string \<Rightarrow> 'a node option")

definition NewTree :: "'a node" where
  "NewTree = Node [] (\<lambda>level. None)"

fun split_topic :: "string \<Rightarrow> string list" where
  "split_topic [] = [[]]"
| "split_topic (c # cs) =
     (if c = CHR ''/'' then [] # split_topic cs
      else (case split_topic cs of [] \<Rightarrow> [[c]] | l # ls \<Rightarrow> (c # l) # ls))"

definition child :: "'a node \<Rightarrow> string \<Rightarrow> 'a node" where
  "child n level = (case children n level of None \<Rightarrow> NewTree | Some c \<Rightarrow> c)"

fun node_set :: "string list \<Rightarrow> 'a \<Rightarrow> 'a node \<Rightarrow> 'a node" where
  "node_set [] v n = Node [v] (children n)"
| "node_set (l # ls) v n = Node (nvalues n) ((children n)(l \<mapsto> node_set ls v (child n l)))"

fun node_empty :: "string list \<Rightarrow> 'a node \<Rightarrow> 'a node" where
  "node_empty [] n = Node [] (children n)"
| "node_empty (l # ls) n =
     (case children n l of
        None \<Rightarrow> n
      | Some c \<Rightarrow> Node (nvalues n) ((children n)(l \<mapsto> node_empty ls c)))"

fun node_get :: "string list \<Rightarrow> 'a node \<Rightarrow> 'a list" where
  "node_get [] n = nvalues n"
| "node_get (l # ls) n = (case children n l of None \<Rightarrow> [] | Some c \<Rightarrow> node_get ls c)"

fun node_search :: "string list \<Rightarrow> 'a node \<Rightarrow> 'a list" where
  "node_search [] n = nvalues (child n ''#'') @ nvalues n"
| "node_search (l # ls) n =
     nvalues (child n ''#'') @
     (case children n ''+'' of None \<Rightarrow> [] | Some c \<Rightarrow> node_search ls c) @
     (case children n l of None \<Rightarrow> [] | Some c \<Rightarrow> node_search ls c)"

definition hidden_topic :: "string list \<Rightarrow> bool" where
  "hidden_topic ls = (case ls of (c # l) # rest \<Rightarrow> c = CHR ''$'' | _ \<Rightarrow> False)"

definition Tree_Set :: "string \<Rightarrow> 'a \<Rightarrow> 'a node \<Rightarrow> 'a node" where
  "Tree_Set topic v t = node_set (split_topic topic) v t"

definition Tree_Empty :: "string \<Rightarrow> 'a node \<Rightarrow> 'a node" where
  "Tree_Empty topic t = node_empty (split_topic topic) t"

definition Tree_Get :: "'a node \<Rightarrow> string \<Rightarrow> 'a list" where
  "Tree_Get t topic = node_get (split_topic topic) t"

definition Tree_Search :: "'a node \<Rightarrow> string \<Rightarrow> 'a list" where
  "Tree_Search t topic =
     (let ls = split_topic topic
      in remdups (if hidden_topic ls
                  then (case children t (hd ls) of None \<Rightarrow> [] | Some c \<Rightarrow> node_search (tl ls) c)
                  else node_search ls t))"

section \<open>The memory backend (broker/backend.go)\<close>

subsection \<open>Sessions, clients and the backend\<close>

text \<open>
  The channels \<^verbatim>\<open>kill\<close> and \<^verbatim>\<open>done\<close> of a session carry no value: they are made open and
  are only ever closed.
\<close>

datatype chan = Open | Closed

text \<open>
  \<^verbatim>\<open>type memorySession struct { *session.MemorySession; queue; owner; kill; done }\<close>.
  Of the embedded \<^verbatim>\<open>session.MemorySession\<close> (not among the source files) the backend uses
  the subscriptions only. The queue is a buffered channel: its contents in order and its
  capacity. A send finds room while the contents are fewer than the capacity; the
  hand-off of a message to a receiver that already waits in Dequeue is taken as an
  append followed by that receiver's Dequeue (so with capacity 0, where a send succeeds
  only by such a hand-off, every send here finds the queue full). A client is known by
  its address.
\<close>

type_synonym cref = nat
type_synonym sref = nat

record memorySession =
  subscriptions :: "Subscription node"
  queue :: "Message list"
  capacity :: nat
  owner :: "cref option"
  kill_ch :: chan
  done_ch :: chan

text \<open>
  The type \<^verbatim>\<open>Client\<close> is not among the source files. The backend reads a client's
  address (as a map key and to compare owners) and calls \<^verbatim>\<open>ClientID()\<close>,
  \<^verbatim>\<open>CleanSession()\<close> and \<^verbatim>\<open>Session()\<close>; these are the fields.
\<close>

record Client =
  addr :: cref
  ClientID :: string
  CleanSession :: bool
  Session :: sref

text \<open>
  \<^verbatim>\<open>type MemoryBackend struct\<close>, with the two mutexes as flags (locked or not). Sessions
  are shared objects reached through pointers: \<open>heap\<close> maps the address of each
  \<^verbatim>\<open>memorySession\<close> to its contents and \<open>next_ref\<close> is the next free address.
\<close>

record MemoryBackend =
  SessionQueueSize :: int
  KillTimeout :: nat
  Credentials :: "(string \<rightharpoonup> string) option"
  activeClients :: "string \<rightharpoonup> cref"
  storedSessions :: "string \<rightharpoonup> sref"
  temporarySessions :: "cref \<rightharpoonup> sref"
  retainedMessages :: "Message node"
  globalMutex :: bool
  setupMutex :: bool
  closing :: bool
  heap :: "sref \<Rightarrow> memorySession"
  next_ref :: sref

datatype error = ErrQueueFull | ErrKilled | ErrClosing | ErrKillTimeout

text \<open>
  What a call of a backend method does: it returns a value and leaves a backend, it
  waits (on a held mutex or on a full queue) in the backend shown, it panics, or it
  stops the process with the runtime's fatal error (unlock of an unlocked mutex).
\<close>

datatype 'a outcome = Returns 'a MemoryBackend | Blocks MemoryBackend | Panics | Fatal

definition zero_session :: memorySession where
  "zero_session = \<lparr>subscriptions = NewTree, queue = [], capacity = 0, owner = None,
     kill_ch = Open, done_ch = Open\<rparr>"

definition NewMemoryBackend :: MemoryBackend where
  "NewMemoryBackend = \<lparr>SessionQueueSize = 100, KillTimeout = 5, Credentials = None,
     activeClients = Map.empty, storedSessions = Map.empty, temporarySessions = Map.empty,
     retainedMessages = NewTree, globalMutex = False, setupMutex = False, closing = False,
     heap = (\<lambda>r. zero_session), next_ref = 0\<rparr>"

text \<open>\<^verbatim>\<open>newMemorySession(backlog)\<close>; \<^verbatim>\<open>make\<close> panics on a negative channel size.\<close>

definition newMemorySession :: "int \<Rightarrow> memorySession option" where
  "newMemorySession backlog =
     (if backlog < 0 then None
      else Some \<lparr>subscriptions = NewTree, queue = [], capacity = nat backlog, owner = None,
             kill_ch = Open, done_ch = Open\<rparr>)"

definition reuse :: "memorySession \<Rightarrow> memorySession" where
  "reuse s = s\<lparr>kill_ch := Open, done_ch := Open\<rparr>"

text \<open>Taking the address of a new session object.\<close>

definition alloc :: "memorySession \<Rightarrow> MemoryBackend \<Rightarrow> sref \<times> MemoryBackend" where
  "alloc s m = (next_ref m, m\<lparr>heap := (heap m)(next_ref m := s), next_ref := Suc (next_ref m)\<rparr>)"

text \<open>
  \<^verbatim>\<open>Lock\<close> on a held mutex waits; \<^verbatim>\<open>Unlock\<close> of a mutex that is not locked is a fatal
  error of the Go runtime. \<open>unlock_return\<close> is a return through the deferred
  \<^verbatim>\<open>m.globalMutex.Unlock()\<close>.
\<close>

definition Lock_global :: "MemoryBackend \<Rightarrow> MemoryBackend option" where
  "Lock_global m = (if globalMutex m then None else Some (m\<lparr>globalMutex := True\<rparr>))"

definition Lock_setup :: "MemoryBackend \<Rightarrow> MemoryBackend option" where
  "Lock_setup m = (if setupMutex m then None else Some (m\<lparr>setupMutex := True\<rparr>))"

definition unlock_return :: "'a \<Rightarrow> MemoryBackend \<Rightarrow> 'a outcome" where
  "unlock_return v m =
     (if globalMutex m then Returns v (m\<lparr>globalMutex := False\<rparr>) else Fatal)"

subsection \<open>Authenticate\<close>

definition Authenticate :: "Client \<Rightarrow> string \<Rightarrow> string \<Rightarrow> MemoryBackend \<Rightarrow> (error + bool) outcome" where
  "Authenticate client user password m0 =
     (case Lock_global m0 of
        None \<Rightarrow> Blocks m0
      | Some m \<Rightarrow>
          if closing m then unlock_return (Inl ErrClosing) m
          else (case Credentials m of
                  None \<Rightarrow> unlock_return (Inr True) m
                | Some creds \<Rightarrow>
                    if creds user = Some password then unlock_return (Inr True) m
                    else unlock_return (Inr False) m))"

subsection \<open>Setup\<close>

text \<open>
  While Setup waits for a killed client it has released the global mutex, and the other
  goroutines run. The parameter \<open>env\<close> gives what the \<^verbatim>\<open>select\<close> then sees, and the
  backend as the other goroutines have left it at that moment: the old session's
  \<^verbatim>\<open>done\<close> channel fired, or \<^verbatim>\<open>KillTimeout\<close> elapsed first.
\<close>

datatype wait = Done_fired MemoryBackend | Timed_out MemoryBackend

text \<open>
  A return of Setup runs its two deferred calls, \<^verbatim>\<open>m.setupMutex.Unlock()\<close> first and
  \<^verbatim>\<open>m.globalMutex.Unlock()\<close> second.
\<close>

definition setup_return :: "'a \<Rightarrow> MemoryBackend \<Rightarrow> 'a outcome" where
  "setup_return v m =
     (if \<not> setupMutex m then Fatal
      else if \<not> globalMutex m then Fatal
      else Returns v (m\<lparr>setupMutex := False, globalMutex := False\<rparr>))"

text \<open>The lookup of the existing session: the stored one, else the temporary one of the active client.\<close>

definition existing_session :: "MemoryBackend \<Rightarrow> string \<Rightarrow> sref option" where
  "existing_session m cid =
     (case storedSessions m cid of
        Some s \<Rightarrow> Some s
      | None \<Rightarrow> (case activeClients m cid of
                  Some existingClient \<Rightarrow> temporarySessions m existingClient
                | None \<Rightarrow> None))"

text \<open>The second half of Setup, from \<^verbatim>\<open>if client.CleanSession()\<close> on.\<close>

definition setup_session :: "Client \<Rightarrow> string \<Rightarrow> MemoryBackend \<Rightarrow> (error + sref \<times> bool) outcome" where
  "setup_session client cid m =
     (if CleanSession client then
        (let m1 = m\<lparr>storedSessions := (storedSessions m)(cid := None)\<rparr>
         in case newMemorySession (SessionQueueSize m1) of
              None \<Rightarrow> Panics
            | Some s \<Rightarrow>
                let (sess, m2) = alloc (s\<lparr>owner := Some (addr client)\<rparr>) m1;
                    m3 = m2\<lparr>temporarySessions := (temporarySessions m2)(addr client \<mapsto> sess)\<rparr>;
                    m4 = m3\<lparr>activeClients := (activeClients m3)(cid \<mapsto> addr client)\<rparr>
                in setup_return (Inr (sess, False)) m4)
      else
        (case storedSessions m cid of
           Some storedSession \<Rightarrow>
             let m1 = m\<lparr>heap := (heap m)(storedSession :=
                          (reuse (heap m storedSession))\<lparr>owner := Some (addr client)\<rparr>)\<rparr>;
                 m2 = m1\<lparr>activeClients := (activeClients m1)(cid \<mapsto> addr client)\<rparr>
             in setup_return (Inr (storedSession, True)) m2
         | None \<Rightarrow>
             (case newMemorySession (SessionQueueSize m) of
                None \<Rightarrow> Panics
              | Some s \<Rightarrow>
                  let (sess, m1) = alloc (s\<lparr>owner := Some (addr client)\<rparr>) m;
                      m2 = m1\<lparr>storedSessions := (storedSessions m1)(cid \<mapsto> sess)\<rparr>;
                      m3 = m2\<lparr>activeClients := (activeClients m2)(cid \<mapsto> addr client)\<rparr>
                  in setup_return (Inr (sess, False)) m3)))"

text \<open>
  The takeover: close the kill channel (closing a closed channel panics), release the
  global mutex, wait, and on \<^verbatim>\<open>done\<close> take the mutex again.
\<close>

definition kill_and_wait ::
  "(MemoryBackend \<Rightarrow> wait) \<Rightarrow> Client \<Rightarrow> string \<Rightarrow> sref \<Rightarrow> MemoryBackend \<Rightarrow> (error + sref \<times> bool) outcome" where
  "kill_and_wait env client cid existingSession m =
     (if kill_ch (heap m existingSession) = Closed then Panics
      else
        let m1 = m\<lparr>heap := (heap m)(existingSession := (heap m existingSession)\<lparr>kill_ch := Closed\<rparr>)\<rparr>;
            m2 = m1\<lparr>globalMutex := False\<rparr>
        in (case env m2 of
              Timed_out m3 \<Rightarrow> setup_return (Inl ErrKillTimeout) m3
            | Done_fired m3 \<Rightarrow>
                (case Lock_global m3 of
                   None \<Rightarrow> Blocks m3
                 | Some m4 \<Rightarrow> setup_session client cid m4)))"

definition Setup ::
  "(MemoryBackend \<Rightarrow> wait) \<Rightarrow> Client \<Rightarrow> string \<Rightarrow> MemoryBackend \<Rightarrow> (error + sref \<times> bool) outcome" where
  "Setup env client cid m0 =
     (case Lock_global m0 of
        None \<Rightarrow> Blocks m0
      | Some m1 \<Rightarrow>
          (case Lock_setup m1 of
             None \<Rightarrow> Blocks m1
           | Some m \<Rightarrow>
               if closing m then setup_return (Inl ErrClosing) m
               else if length cid = 0 then
                 (case newMemorySession (SessionQueueSize m) of
                    None \<Rightarrow> Panics
                  | Some s \<Rightarrow>
                      let (sess, m2) = alloc (s\<lparr>owner := Some (addr client)\<rparr>) m;
                          m3 = m2\<lparr>temporarySessions := (temporarySessions m2)(addr client \<mapsto> sess)\<rparr>
                      in setup_return (Inr (sess, False)) m3)
               else
                 (case existing_session m cid of
                    Some existingSession \<Rightarrow>
                      if owner (heap m existingSession) \<noteq> None
                      then kill_and_wait env client cid existingSession m
                      else setup_session client cid m
                  | None \<Rightarrow> setup_session client cid m)))"

subsection \<open>QueueOffline, Subscribe, Unsubscribe\<close>

text \<open>The three methods only return \<^verbatim>\<open>nil\<close>.\<close>

definition QueueOffline :: "Client \<Rightarrow> MemoryBackend \<Rightarrow> error option outcome" where
  "QueueOffline client m = Returns None m"

definition Subscribe :: "Client \<Rightarrow> Subscription \<Rightarrow> MemoryBackend \<Rightarrow> error option outcome" where
  "Subscribe client sub m = Returns None m"

definition Unsubscribe :: "Client \<Rightarrow> string \<Rightarrow> MemoryBackend \<Rightarrow> error option outcome" where
  "Unsubscribe client topic m = Returns None m"

subsection \<open>Dequeue\<close>

text \<open>
  The \<^verbatim>\<open>select\<close> of Dequeue takes one of its cases that is ready; \<open>pick\<close> is the case the
  scheduler takes and \<open>close_closed\<close> says whether the channel passed in is closed. A
  case that is not ready stands for waiting. Dequeue takes no mutex.
\<close>

datatype select_case = Receive | Closing | Killed

definition Dequeue ::
  "select_case \<Rightarrow> bool \<Rightarrow> Client \<Rightarrow> MemoryBackend \<Rightarrow> (error + Message option) outcome" where
  "Dequeue pick close_closed client m =
     (let sess = Session client
      in case pick of
           Receive \<Rightarrow>
             (case queue (heap m sess) of
                [] \<Rightarrow> Blocks m
              | msg # rest \<Rightarrow>
                  Returns (Inr (Some msg)) (m\<lparr>heap := (heap m)(sess := (heap m sess)\<lparr>queue := rest\<rparr>)\<rparr>))
         | Closing \<Rightarrow> if close_closed then Returns (Inr None) m else Blocks m
         | Killed \<Rightarrow> if kill_ch (heap m sess) = Closed then Returns (Inl ErrKilled) m else Blocks m)"

subsection \<open>StoreRetained, ClearRetained, QueueRetained\<close>

definition StoreRetained :: "Client \<Rightarrow> Message \<Rightarrow> MemoryBackend \<Rightarrow> error option outcome" where
  "StoreRetained client msg m =
     Returns None (m\<lparr>retainedMessages := Tree_Set (Topic msg) (Copy msg) (retainedMessages m)\<rparr>)"

definition ClearRetained :: "Client \<Rightarrow> string \<Rightarrow> MemoryBackend \<Rightarrow> error option outcome" where
  "ClearRetained client topic m =
     Returns None (m\<lparr>retainedMessages := Tree_Empty topic (retainedMessages m)\<rparr>)"

text \<open>
  The loop of QueueRetained: a \<^verbatim>\<open>select\<close> with a \<^verbatim>\<open>default\<close> case sends when the queue
  has room and returns \<^verbatim>\<open>ErrQueueFull\<close> otherwise. The result is the session and
  whether the loop ran to its end.
\<close>

fun queue_values :: "Message list \<Rightarrow> memorySession \<Rightarrow> memorySession \<times> bool" where
  "queue_values [] s = (s, True)"
| "queue_values (v # vs) s =
     (if length (queue s) < capacity s then queue_values vs (s\<lparr>queue := queue s @ [v]\<rparr>)
      else (s, False))"

definition QueueRetained :: "Client \<Rightarrow> string \<Rightarrow> MemoryBackend \<Rightarrow> error option outcome" where
  "QueueRetained client topic m =
     (let vs = Tree_Search (retainedMessages m) topic;
          sess = Session client
      in case queue_values vs (heap m sess) of
           (s, True) \<Rightarrow> Returns None (m\<lparr>heap := (heap m)(sess := s)\<rparr>)
         | (s, False) \<Rightarrow> Returns (Some ErrQueueFull) (m\<lparr>heap := (heap m)(sess := s)\<rparr>))"

subsection \<open>Publish\<close>

text \<open>
  Modelled from the spec: \<^verbatim>\<open>LookupSubscription\<close> of \<^verbatim>\<open>session.MemorySession\<close> is not
  among the source files; it matches a topic against the stored subscriptions and
  returns the first one found, or none.
\<close>

definition LookupSubscription :: "memorySession \<Rightarrow> string \<Rightarrow> Subscription option" where
  "LookupSubscription s topic =
     (case Tree_Search (subscriptions s) topic of [] \<Rightarrow> None | sub # subs \<Rightarrow> Some sub)"

text \<open>
  Go ranges over a map in an order it does not fix. A loop over a map takes the order
  as a list of keys; \<open>values_in\<close> gives the values the loop then visits.
\<close>

definition values_in :: "('k \<rightharpoonup> 'v) \<Rightarrow> 'k list \<Rightarrow> 'v list" where
  "values_in mp keys = List.map_filter mp keys"

text \<open>
  A send \<^verbatim>\<open>sess.queue <- msg\<close> that goes through appends the message to the queue.
\<close>

definition send :: "sref \<Rightarrow> Message \<Rightarrow> MemoryBackend \<Rightarrow> MemoryBackend" where
  "send sess msg m =
     m\<lparr>heap := (heap m)(sess := (heap m sess)\<lparr>queue := queue (heap m sess) @ [msg]\<rparr>)\<rparr>"

text \<open>
  One of the two loops of Publish over sessions. A send to the publisher's own queue
  is a \<^verbatim>\<open>select\<close> with \<^verbatim>\<open>default\<close>, which returns \<^verbatim>\<open>ErrQueueFull\<close> from inside the loop
  when the queue is full. A send to another session's full queue waits, holding the
  global mutex, while other goroutines run: \<open>room sess m\<close> is \<open>None\<close> when the queue of
  \<open>sess\<close> never gets room, and otherwise the backend as the others have left it when
  the send goes through; the loop then goes on from there.
\<close>

datatype delivery =
    Delivered MemoryBackend
  | Queue_full MemoryBackend
  | Send_waits MemoryBackend

fun deliver ::
  "(sref \<Rightarrow> MemoryBackend \<Rightarrow> MemoryBackend option) \<Rightarrow> cref \<Rightarrow> Message \<Rightarrow> sref list
     \<Rightarrow> MemoryBackend \<Rightarrow> delivery" where
  "deliver room client msg [] m = Delivered m"
| "deliver room client msg (sess # rest) m =
     (if LookupSubscription (heap m sess) (Topic msg) \<noteq> None then
        (if owner (heap m sess) = Some client then
           (if length (queue (heap m sess)) < capacity (heap m sess)
            then deliver room client msg rest (send sess msg m)
            else Queue_full m)
         else
           (if length (queue (heap m sess)) < capacity (heap m sess)
            then deliver room client msg rest (send sess msg m)
            else (case room sess m of
                    None \<Rightarrow> Send_waits m
                  | Some m' \<Rightarrow>
                      if length (queue (heap m' sess)) < capacity (heap m' sess)
                      then deliver room client msg rest (send sess msg m')
                      else Send_waits m')))
      else deliver room client msg rest m)"

definition Publish ::
  "(sref \<Rightarrow> MemoryBackend \<Rightarrow> MemoryBackend option) \<Rightarrow> cref list \<Rightarrow> string list \<Rightarrow> Client
     \<Rightarrow> Message \<Rightarrow> MemoryBackend \<Rightarrow> error option outcome" where
  "Publish room tkeys skeys client msg m0 =
     (case Lock_global m0 of
        None \<Rightarrow> Blocks m0
      | Some m \<Rightarrow>
          (case deliver room (addr client) msg (values_in (temporarySessions m) tkeys) m of
             Queue_full m1 \<Rightarrow> unlock_return (Some ErrQueueFull) m1
           | Send_waits m1 \<Rightarrow> Blocks m1
           | Delivered m1 \<Rightarrow>
               (case deliver room (addr client) msg (values_in (storedSessions m1) skeys) m1 of
                  Queue_full m2 \<Rightarrow> unlock_return (Some ErrQueueFull) m2
                | Send_waits m2 \<Rightarrow> Blocks m2
                | Delivered m2 \<Rightarrow> unlock_return None m2)))"

subsection \<open>Terminate\<close>

definition Terminate :: "Client \<Rightarrow> MemoryBackend \<Rightarrow> error option outcome" where
  "Terminate client m0 =
     (case Lock_global m0 of
        None \<Rightarrow> Blocks m0
      | Some m \<Rightarrow>
          let sess = Session client;
              m1 = m\<lparr>heap := (heap m)(sess := (heap m sess)\<lparr>owner := None\<rparr>)\<rparr>;
              m2 = m1\<lparr>temporarySessions := (temporarySessions m1)(addr client := None)\<rparr>;
              m3 = m2\<lparr>activeClients := (activeClients m2)(ClientID client := None)\<rparr>
          in if done_ch (heap m3 sess) = Closed then Panics
             else unlock_return None
                    (m3\<lparr>heap := (heap m3)(sess := (heap m3 sess)\<lparr>done_ch := Closed\<rparr>)\<rparr>))"

subsection \<open>Close\<close>

text \<open>
  The two loops of Close that close kill channels and collect done channels (a done
  channel is named by its session); closing a closed channel panics (\<open>None\<close>).
\<close>

fun kill_sessions ::
  "sref list \<Rightarrow> (sref \<Rightarrow> memorySession) \<Rightarrow> ((sref \<Rightarrow> memorySession) \<times> sref list) option" where
  "kill_sessions [] h = Some (h, [])"
| "kill_sessions (sess # rest) h =
     (if kill_ch (h sess) = Closed then None
      else (case kill_sessions rest (h(sess := (h sess)\<lparr>kill_ch := Closed\<rparr>)) of
              None \<Rightarrow> None
            | Some (h', list) \<Rightarrow> Some (h', sess # list)))"

fun kill_owned_sessions ::
  "sref list \<Rightarrow> (sref \<Rightarrow> memorySession) \<Rightarrow> ((sref \<Rightarrow> memorySession) \<times> sref list) option" where
  "kill_owned_sessions [] h = Some (h, [])"
| "kill_owned_sessions (sess # rest) h =
     (if owner (h sess) \<noteq> None then
        (if kill_ch (h sess) = Closed then None
         else (case kill_owned_sessions rest (h(sess := (h sess)\<lparr>kill_ch := Closed\<rparr>)) of
                 None \<Rightarrow> None
               | Some (h', list) \<Rightarrow> Some (h', sess # list)))
      else kill_owned_sessions rest h)"

text \<open>
  The last loop of Close: each \<^verbatim>\<open>select\<close> sees the done channel fire or the one timer
  \<^verbatim>\<open>tm\<close>; \<open>fires ch\<close> says that the done channel of session \<open>ch\<close> fires before the timer.
\<close>

fun wait_done :: "(sref \<Rightarrow> bool) \<Rightarrow> sref list \<Rightarrow> bool" where
  "wait_done fires [] = True"
| "wait_done fires (ch # rest) = (if fires ch then wait_done fires rest else False)"

definition Close :: "cref list \<Rightarrow> string list \<Rightarrow> (sref \<Rightarrow> bool) \<Rightarrow> MemoryBackend \<Rightarrow> bool outcome" where
  "Close tkeys skeys fires m0 =
     (case Lock_global m0 of
        None \<Rightarrow> Blocks m0
      | Some m \<Rightarrow>
          let m1 = m\<lparr>closing := True\<rparr>
          in (case kill_sessions (values_in (temporarySessions m1) tkeys) (heap m1) of
                None \<Rightarrow> Panics
              | Some (h1, list1) \<Rightarrow>
                  (case kill_owned_sessions (values_in (storedSessions m1) skeys) h1 of
                     None \<Rightarrow> Panics
                   | Some (h2, list2) \<Rightarrow>
                       let m2 = m1\<lparr>heap := h2, globalMutex := False\<rparr>;
                           list = list1 @ list2
                       in if length list = 0 then Returns True m2
                          else Returns (wait_done fires list) m2)))"

subsection \<open>Sample values\<close>

definition sample_client :: Client where
  "sample_client = \<lparr>addr = 1, ClientID = ''c1'', CleanSession = False, Session = 0\<rparr>"

text \<open>A backend with one stored session, owned by the sample client.\<close>

definition durable_backend :: MemoryBackend where
  "durable_backend = NewMemoryBackend\<lparr>
     activeClients := [''c1'' \<mapsto> 1],
     storedSessions := [''c1'' \<mapsto> 0],
     heap := (\<lambda>r. zero_session)(0 := \<lparr>subscriptions = NewTree, queue = [], capacity = 100,
        owner = Some 1, kill_ch = Open, done_ch = Open\<rparr>),
     next_ref := 1\<rparr>"

text \<open>A retained message with an empty payload.\<close>

definition empty_retained :: Message where
  "empty_retained = \<lparr>Topic = ''a/b'', Payload = [], QOS = 0, Retain = True\<rparr>"

subsection \<open>The keys a search visits\<close>

text \<open>
  For stating what a search returns: the stored keys, as lists of levels, that match a
  topic under the spec's rules. \<open>patterns\<close> replaces levels by \<open>+\<close> and a tail by \<open>#\<close>;
  for a topic whose first level begins with \<open>$\<close> the first level is kept as it is.
\<close>

fun patterns :: "string list \<Rightarrow> string list list" where
  "patterns [] = [[''#''], []]"
| "patterns (l # ls) = [''#''] # map ((#) ''+'') (patterns ls) @ map ((#) l) (patterns ls)"

definition matching_keys :: "string \<Rightarrow> string list list" where
  "matching_keys topic =
     (let ls = split_topic topic
      in if hidden_topic ls then map ((#) (hd ls)) (patterns (tl ls)) else patterns ls)"

subsection \<open>The sessions a call of Close signals\<close>

text \<open>
  For stating what Close does: the sessions whose kill channel it closes and whose done
  channel it waits for, in the order of its two loops: every temporary session, then
  every stored session that has an owner.
\<close>

definition close_list :: "cref list \<Rightarrow> string list \<Rightarrow> MemoryBackend \<Rightarrow> sref list" where
  "close_list tkeys skeys m =
     values_in (temporarySessions m) tkeys @
     filter (\<lambda>r. owner (heap m r) \<noteq> None) (values_in (storedSessions m) skeys)"

subsection \<open>What a call of Publish meets\<close>

text \<open>
  For stating what Publish does, on the heap \<open>h\<close> it starts from: a session wants the
  message when \<^verbatim>\<open>LookupSubscription\<close> finds a subscription for its topic; its queue is
  full when it is filled to its capacity; \<open>stuck\<close> is a session that wants the message
  and has a full queue; \<open>appended h msg R\<close> is the heap with the message appended to the
  queue of every session of \<open>R\<close> that wants it; \<open>publish_order\<close> lists the sessions in the
  order the two loops visit them.
\<close>

definition wants :: "(sref \<Rightarrow> memorySession) \<Rightarrow> Message \<Rightarrow> sref \<Rightarrow> bool" where
  "wants h msg r = (LookupSubscription (h r) (Topic msg) \<noteq> None)"

definition queue_full :: "(sref \<Rightarrow> memorySession) \<Rightarrow> sref \<Rightarrow> bool" where
  "queue_full h r = (capacity (h r) \<le> length (queue (h r)))"

definition appended :: "(sref \<Rightarrow> memorySession) \<Rightarrow> Message \<Rightarrow> sref set \<Rightarrow> sref \<Rightarrow> memorySession" where
  "appended h msg R r =
     (if r \<in> R \<and> wants h msg r then (h r)\<lparr>queue := queue (h r) @ [msg]\<rparr> else h r)"

definition publish_order :: "cref list \<Rightarrow> string list \<Rightarrow> MemoryBackend \<Rightarrow> sref list" where
  "publish_order tkeys skeys m =
     values_in (temporarySessions m) tkeys @ values_in (storedSessions m) skeys"

definition stuck :: "(sref \<Rightarrow> memorySession) \<Rightarrow> Message \<Rightarrow> sref \<Rightarrow> bool" where
  "stuck h msg r = (wants h msg r \<and> queue_full h r)"

text \<open>
  The end of a call of Publish whose loops have come to \<open>d\<close>: the deferred unlock and
  the return, or the wait that goes on. Two environments of a waiting send: one in
  which the queue never gets room, and one in which the session's client takes the
  first message off the queue with Dequeue.
\<close>

definition concludes :: "delivery \<Rightarrow> error option outcome" where
  "concludes d =
     (case d of
        Delivered m \<Rightarrow> unlock_return None m
      | Queue_full m \<Rightarrow> unlock_return (Some ErrQueueFull) m
      | Send_waits m \<Rightarrow> Blocks m)"

definition never_room :: "sref \<Rightarrow> MemoryBackend \<Rightarrow> MemoryBackend option" where
  "never_room sess m = None"

definition taken_off :: "sref \<Rightarrow> MemoryBackend \<Rightarrow> MemoryBackend option" where
  "taken_off sess m =
     Some (m\<lparr>heap := (heap m)(sess := (heap m sess)\<lparr>queue := tl (queue (heap m sess))\<rparr>)\<rparr>)"

text \<open>
  A message, a session that subscribes to its topic and has a queue of capacity 1, a
  second client, and a backend with two such stored sessions, the first owned by the
  sample client and the second by the second client.
\<close>

definition news :: Message where
  "news = \<lparr>Topic = ''t'', Payload = [104, 105], QOS = 0, Retain = False\<rparr>"

definition subscribed_session :: "Message list \<Rightarrow> memorySession" where
  "subscribed_session q = \<lparr>subscriptions = Tree_Set ''t'' \<lparr>Filter = ''t'', MaxQOS = 0\<rparr> NewTree,
     queue = q, capacity = 1, owner = Some 1, kill_ch = Open, done_ch = Open\<rparr>"

definition other_client :: Client where
  "other_client = \<lparr>addr = 2, ClientID = ''c2'', CleanSession = False, Session = 1\<rparr>"

definition two_subscribers :: "Message list \<Rightarrow> Message list \<Rightarrow> MemoryBackend" where
  "two_subscribers q1 q2 = NewMemoryBackend\<lparr>
     activeClients := [''c1'' \<mapsto> 1, ''c2'' \<mapsto> 2],
     storedSessions := [''c1'' \<mapsto> 0, ''c2'' \<mapsto> 1],
     heap := (\<lambda>r. zero_session)(0 := subscribed_session q1,
        1 := (subscribed_session q2)\<lparr>owner := Some 2\<rparr>),
     next_ref := 2\<rparr>"

subsection \<open>What a call of Setup meets\<close>

text \<open>
  For stating what Setup does: the backend a wait ends in; two environments of the
  wait, one in which nothing happens before the timer fires and one in which the killed
  client runs Terminate; the session \<^verbatim>\<open>newMemorySession\<close> makes for a client; whether a
  call takes a session over (an existing session for the id has an owner); and the
  backend in which Setup then waits, with the kill channel closed, the global mutex
  released and the setup mutex held.
\<close>

definition wait_backend :: "wait \<Rightarrow> MemoryBackend" where
  "wait_backend w = (case w of Done_fired m \<Rightarrow> m | Timed_out m \<Rightarrow> m)"

definition never_done :: "MemoryBackend \<Rightarrow> wait" where
  "never_done m = Timed_out m"

definition terminates :: "Client \<Rightarrow> MemoryBackend \<Rightarrow> wait" where
  "terminates victim m =
     (case Terminate victim m of Returns v m' \<Rightarrow> Done_fired m' | _ \<Rightarrow> Timed_out m)"

definition new_session :: "MemoryBackend \<Rightarrow> Client \<Rightarrow> memorySession" where
  "new_session m client = \<lparr>subscriptions = NewTree, queue = [],
     capacity = nat (SessionQueueSize m), owner = Some (addr client),
     kill_ch = Open, done_ch = Open\<rparr>"

definition takes_over :: "MemoryBackend \<Rightarrow> string \<Rightarrow> bool" where
  "takes_over m cid =
     (case existing_session m cid of
        None \<Rightarrow> False
      | Some existingSession \<Rightarrow> owner (heap m existingSession) \<noteq> None)"

definition locked :: "MemoryBackend \<Rightarrow> MemoryBackend" where
  "locked m = m\<lparr>globalMutex := True, setupMutex := True\<rparr>"

definition killed :: "MemoryBackend \<Rightarrow> string \<Rightarrow> MemoryBackend" where
  "killed m cid =
     (case existing_session m cid of
        None \<Rightarrow> m
      | Some existingSession \<Rightarrow>
          (locked m)\<lparr>heap := (heap m)(existingSession := (heap m existingSession)\<lparr>kill_ch := Closed\<rparr>),
            globalMutex := False\<rparr>)"

text \<open>
  The backend in which the second half of Setup runs, with both mutexes held: the one
  the wait ends in when the call takes a session over, and the backend of the call
  otherwise.
\<close>

definition after_wait :: "(MemoryBackend \<Rightarrow> wait) \<Rightarrow> MemoryBackend \<Rightarrow> string \<Rightarrow> MemoryBackend" where
  "after_wait env m cid =
     (if cid \<noteq> [] \<and> takes_over m cid
      then (wait_backend (env (killed m cid)))\<lparr>globalMutex := True\<rparr>
      else locked m)"

text \<open>
  A second client with the sample client's id, a stored session with a given owner, and
  a closing backend that stores a session nobody owns.
\<close>

definition second_client :: Client where
  "second_client = \<lparr>addr = 2, ClientID = ''c1'', CleanSession = False, Session = 0\<rparr>"

definition durable_session :: "cref option \<Rightarrow> memorySession" where
  "durable_session holder = \<lparr>subscriptions = NewTree, queue = [], capacity = 100,
     owner = holder, kill_ch = Open, done_ch = Open\<rparr>"

definition offline_backend :: MemoryBackend where
  "offline_backend = NewMemoryBackend\<lparr>
     storedSessions := [''c1'' \<mapsto> 0],
     closing := True,
     heap := (\<lambda>r. zero_session)(0 := durable_session None),
     next_ref := 1\<rparr>"

subsection \<open>Runs of the backend\<close>

text \<open>
  One step of another goroutine, as it can happen while a Setup waits: a call of a
  backend method other than Setup that returns, a Publish that comes to wait, a send
  that was waiting and completes, the release of the global mutex by a call that was
  waiting, a Setup that waits for a mutex while the setup mutex is held, or a write of
  the client engine to a session's subscriptions through the Session interface. A
  call of Publish is one step up to its return or to its first waiting send (the
  environment \<open>never_room\<close>); what it does after a wait is made of the two steps that
  follow it in the list.
\<close>

inductive other_step :: "MemoryBackend \<Rightarrow> MemoryBackend \<Rightarrow> bool" where
  authenticate: "Authenticate client user password m = Returns v m' \<Longrightarrow> other_step m m'"
| queue_offline: "QueueOffline client m = Returns e m' \<Longrightarrow> other_step m m'"
| subscribe: "Subscribe client sub m = Returns e m' \<Longrightarrow> other_step m m'"
| unsubscribe: "Unsubscribe client topic m = Returns e m' \<Longrightarrow> other_step m m'"
| dequeue: "Dequeue pick close_closed client m = Returns d m' \<Longrightarrow> other_step m m'"
| store_retained: "StoreRetained client msg m = Returns e m' \<Longrightarrow> other_step m m'"
| clear_retained: "ClearRetained client topic m = Returns e m' \<Longrightarrow> other_step m m'"
| queue_retained: "QueueRetained client topic m = Returns e m' \<Longrightarrow> other_step m m'"
| publish: "Publish never_room tkeys skeys client msg m = Returns e m' \<Longrightarrow> other_step m m'"
| publish_waits: "Publish never_room tkeys skeys client msg m = Blocks m' \<Longrightarrow> other_step m m'"
| send_completes:
    "other_step m (m\<lparr>heap := (heap m)(r := (heap m r)\<lparr>queue := queue (heap m r) @ [msg]\<rparr>)\<rparr>)"
| mutex_released: "other_step m (m\<lparr>globalMutex := False\<rparr>)"
| terminate: "Terminate client m = Returns e m' \<Longrightarrow> other_step m m'"
| close: "Close tkeys skeys fires m = Returns b m' \<Longrightarrow> other_step m m'"
| setup_waits: "setupMutex m \<Longrightarrow> Setup env client cid m = Blocks m' \<Longrightarrow> other_step m m'"
| session_saved:
    "other_step m (m\<lparr>heap := (heap m)(r := (heap m r)\<lparr>subscriptions := subs\<rparr>)\<rparr>)"

text \<open>An environment of a waiting Setup is allowed when it leaves a backend such steps lead to.\<close>

definition env_allowed :: "(MemoryBackend \<Rightarrow> wait) \<Rightarrow> bool" where
  "env_allowed env = (\<forall>m. other_step\<^sup>*\<^sup>* m (wait_backend (env m)))"

text \<open>
  The backends a run reaches from \<^verbatim>\<open>NewMemoryBackend()\<close>, by setting the public fields,
  by the steps above and by calls of Setup. The second component is a record of the
  run, not a part of the program: for every client id, the clean-session flag of the
  most recent Setup that returned a session for it.
\<close>

inductive reach :: "MemoryBackend \<Rightarrow> (string \<rightharpoonup> bool) \<Rightarrow> bool" where
  new: "reach NewMemoryBackend Map.empty"
| configured:
    "reach m g \<Longrightarrow> reach (m\<lparr>SessionQueueSize := n, KillTimeout := t, Credentials := creds\<rparr>) g"
| other: "reach m g \<Longrightarrow> other_step m m' \<Longrightarrow> reach m' g"
| setup_done:
    "reach m g \<Longrightarrow> env_allowed env \<Longrightarrow> Setup env client cid m = Returns (Inr v) m' \<Longrightarrow>
       reach m' (g(cid \<mapsto> CleanSession client))"
| setup_failed:
    "reach m g \<Longrightarrow> env_allowed env \<Longrightarrow> Setup env client cid m = Returns (Inl e) m' \<Longrightarrow>
       reach m' g"
| setup_waiting:
    "reach m g \<Longrightarrow> env_allowed env \<Longrightarrow> Setup env client cid m = Blocks m' \<Longrightarrow> reach m' g"

text \<open>
  Two relations for the proofs: a step that leaves the stored-session map and the next
  free address alone and adds no temporary session; and the invariant of a run, that an
  id has a stored session only if its most recent successful Setup had clean-session
  false, that the empty id has none, and that every session of the two maps lies below
  the next free address.
\<close>

definition keeps_store :: "MemoryBackend \<Rightarrow> MemoryBackend \<Rightarrow> bool" where
  "keeps_store m m' =
     (storedSessions m' = storedSessions m \<and> next_ref m' = next_ref m \<and>
      ran (temporarySessions m') \<subseteq> ran (temporarySessions m))"

definition store_inv :: "MemoryBackend \<Rightarrow> (string \<rightharpoonup> bool) \<Rightarrow> bool" where
  "store_inv m g =
     ((\<forall>cid. storedSessions m cid \<noteq> None \<longrightarrow> g cid = Some False) \<and>
      storedSessions m [] = None \<and>
      (\<forall>r \<in> ran (storedSessions m). r < next_ref m) \<and>
      (\<forall>r \<in> ran (temporarySessions m). r < next_ref m))"

text \<open>A client that asks for a clean session, the backend after its Setup, and the backend after the second client has then taken the id over.\<close>

definition clean_client :: Client where
  "clean_client = \<lparr>addr = 3, ClientID = ''c1'', CleanSession = True, Session = 0\<rparr>"

definition clean_backend :: MemoryBackend where
  "clean_backend = NewMemoryBackend\<lparr>
     activeClients := [''c1'' \<mapsto> 3],
     temporarySessions := [3 \<mapsto> 0],
     heap := (\<lambda>r. zero_session)(0 := durable_session (Some 3)),
     next_ref := 1\<rparr>"

definition reconnected_backend :: MemoryBackend where
  "reconnected_backend = NewMemoryBackend\<lparr>
     activeClients := [''c1'' \<mapsto> 2],
     storedSessions := [''c1'' \<mapsto> 1],
     heap := (\<lambda>r. zero_session)
       (0 := (durable_session None)\<lparr>kill_ch := Closed, done_ch := Closed\<rparr>,
        1 := durable_session (Some 2)),
     next_ref := 2\<rparr>"

section \<open>Properties of the SUBACK codec\<close>

lemma byte_unat_less: "unat (b :: byte) < 256"
  using unsigned_less [of b, where ?'a = nat] by simp

lemma ucast_byte_unat: "unat (ucast (b :: byte) :: 16 word) = unat b"
  using byte_unat_less [of b] by (simp add: unsigned_ucast_eq take_bit_nat_eq_self)

lemma be_disj: "push_bit 8 (ucast (b0 :: byte) :: 16 word) OR ucast (b1 :: byte) = push_bit 8 (ucast b0) + ucast b1"
  by (rule disjunctive_add [symmetric]) (auto simp: bit_simps dest: bit_imp_le_length)

lemma be_uint16_unat: "unat (be_uint16 b0 b1) = 256 * unat b0 + unat b1"
proof -
  have a: "unat b0 < 256" "unat b1 < 256"
    by (rule byte_unat_less)+
  have p: "unat (push_bit 8 (ucast b0 :: 16 word)) = 256 * unat b0"
    using a unat_mult_lem [of "ucast b0 :: 16 word" 256]
    by (simp add: push_bit_eq_mult ucast_byte_unat mult.commute)
  have "unat (push_bit 8 (ucast b0 :: 16 word) + ucast b1) = unat (push_bit 8 (ucast b0 :: 16 word)) + unat (ucast b1 :: 16 word)"
    using a by (subst unat_add_lem [THEN iffD1]) (simp_all add: p ucast_byte_unat)
  then show ?thesis
    by (simp add: be_uint16_def be_disj p ucast_byte_unat)
qed

lemma be_uint16_eq: "be_uint16 b0 b1 = of_nat (256 * unat b0 + unat b1)"
  using be_uint16_unat [of b0 b1, symmetric] by (metis of_nat_unat ucast_id)


lemma first_invalid_code_None:
  "first_invalid_code i codes = None \<longleftrightarrow> (\<forall>c \<in> set codes. validQOS c \<or> c = QOSFailure)"
  by (induction codes arbitrary: i) auto

lemma valid_code_iff: "(validQOS c \<or> c = QOSFailure) \<longleftrightarrow> c \<in> {0, 1, 2, 0x80}"
  by (auto simp: validQOS_def QOSFailure_def)

lemma first_invalid_code_Some:
  "first_invalid_code k codes = Some (c, i) \<Longrightarrow>
     k \<le> i \<and> i - k < length codes \<and> codes ! (i - k) = c \<and> c \<notin> {0, 1, 2, 0x80} \<and>
     (\<forall>j < i - k. codes ! j \<in> {0, 1, 2, 0x80})"
proof (induction codes arbitrary: k)
  case Nil
  then show ?case by simp
next
  case (Cons a codes)
  show ?case
  proof (cases "\<not> validQOS a \<and> a \<noteq> QOSFailure")
    case True
    with Cons.prems have "c = a" "i = k" by auto
    with True show ?thesis using valid_code_iff [of a] by auto
  next
    case False
    with Cons.prems have "first_invalid_code (Suc k) codes = Some (c, i)" by auto
    from Cons.IH [OF this] have ih: "Suc k \<le> i" "i - Suc k < length codes"
      "codes ! (i - Suc k) = c" "c \<notin> {0, 1, 2, 0x80}"
      "\<forall>j < i - Suc k. codes ! j \<in> {0, 1, 2, 0x80}" by blast+
    from ih(1) have ik: "i - k = Suc (i - Suc k)" by arith
    have a: "a \<in> {0, 1, 2, 0x80}" using False valid_code_iff [of a] by blast
    have "\<forall>j < i - k. (a # codes) ! j \<in> {0, 1, 2, 0x80}"
    proof (intro allI impI)
      fix j assume "j < i - k"
      then show "(a # codes) ! j \<in> {0, 1, 2, 0x80}"
        using a ih(5) ik by (cases j) auto
    qed
    then show ?thesis using ih ik by simp
  qed
qed

lemma first_bad_code:
  assumes "\<exists>c \<in> set codes. c \<notin> {0, 1, 2, 0x80}"
  shows "\<exists>i < length codes. codes ! i \<notin> {0, 1, 2, 0x80} \<and> (\<forall>j < i. codes ! j \<in> {0, 1, 2, 0x80}) \<and>
           first_invalid_code 0 codes = Some (codes ! i, i)"
proof -
  from assms have "first_invalid_code 0 codes \<noteq> None"
    unfolding first_invalid_code_None valid_code_iff by blast
  then obtain c i where fi: "first_invalid_code 0 codes = Some (c, i)"
    by (cases "first_invalid_code 0 codes") auto
  from first_invalid_code_Some [OF fi] fi show ?thesis by auto
qed

lemma Decode_body:
  assumes "headerDecode src SUBACK = (hl, fl, rl, None)" "hl + 2 \<le> length (elems src)" "2 < rl"
    "hl + 2 + nat (rl - 2) \<le> cap src"
  shows "Decode headerDecode sm src =
    (case first_invalid_code 0 (take (nat (rl - 2)) (drop (hl + 2) (elems src @ spare src))) of
       Some (code, i) \<Rightarrow>
         Return (hl + 2 + nat (rl - 2), Some (InvalidReturnCode code i),
           \<lparr>ReturnCodes = take (nat (rl - 2)) (drop (hl + 2) (elems src @ spare src)),
            PacketID = of_nat (256 * unat (elems src ! hl) + unat (elems src ! (hl + 1)))\<rparr>)
     | None \<Rightarrow>
         Return (hl + 2 + nat (rl - 2), None,
           \<lparr>ReturnCodes = take (nat (rl - 2)) (drop (hl + 2) (elems src @ spare src)),
            PacketID = of_nat (256 * unat (elems src ! hl) + unat (elems src ! (hl + 1)))\<rparr>))"
proof -
  have len: "length (take (nat (rl - 2)) (drop (hl + 2) (elems src @ spare src))) = nat (rl - 2)"
    using assms(4) by (simp add: cap_def)
  show ?thesis
    using assms len
    by (cases sm) (simp add: Decode_def Let_def not_less be_uint16_eq del: length_take of_nat_add of_nat_mult
        split: option.split)
qed

text \<open>
  Claim C8. Let \<open>headerDecode\<close> answer the header length \<open>hl\<close> and the remaining length
  \<open>rl\<close>. When it answers an error (as for a buffer too short for the header),
  \<^verbatim>\<open>SubackMessage.Decode\<close> returns that error. Otherwise Decode returns an error when the
  buffer is shorter than the header plus two bytes, and when the remaining length is at
  most 2. Otherwise it reads the \<open>rl - 2\<close> bytes after the packet id from the backing
  array (it panics when they lie beyond the capacity): when one of them is not 0, 1, 2
  or 0x80 it returns an error that names the first such code and its index; when all of
  them are, it returns no error, the byte count \<open>hl + rl\<close>, the packet id
  \<open>256 * b0 + b1\<close> of the two bytes \<open>b0\<close>, \<open>b1\<close> after the header, and these \<open>rl - 2\<close>
  return codes. \<^verbatim>\<open>Encode\<close> returns an error, with byte count 0 and the buffer
  untouched, when a return code of the message is not 0, 1, 2 or 0x80.
\<close>

theorem Suback_codec:
  fixes headerDecode :: "byteslice \<Rightarrow> byte \<Rightarrow> nat \<times> byte \<times> int \<times> 'e option"
    and headerEncode :: "byteslice \<Rightarrow> byte \<Rightarrow> nat \<Rightarrow> nat \<Rightarrow> byte \<Rightarrow> nat \<times> byteslice \<times> 'e option"
  shows
  "(headerDecode src SUBACK = (hl, fl, rl, Some err) \<longrightarrow>
      Decode headerDecode sm src = Return (hl, Some (HeaderError err), sm)) \<and>
   (headerDecode src SUBACK = (hl, fl, rl, None) \<longrightarrow>
      (length (elems src) < hl + 2 \<longrightarrow>
         Decode headerDecode sm src
           = Return (hl, Some (InsufficientBuffer (hl + 2) (length (elems src))), sm)) \<and>
      (hl + 2 \<le> length (elems src) \<and> rl \<le> 2 \<longrightarrow>
         Decode headerDecode sm src = Return (hl, Some (RemainingLength rl), sm)) \<and>
      (hl + 2 \<le> length (elems src) \<and> 2 < rl \<and> cap src < hl + 2 + nat (rl - 2) \<longrightarrow>
         Decode headerDecode sm src = Panic) \<and>
      (hl + 2 \<le> length (elems src) \<and> 2 < rl \<and> hl + 2 + nat (rl - 2) \<le> cap src \<longrightarrow>
         (let codes = take (nat (rl - 2)) (drop (hl + 2) (elems src @ spare src));
              sm' = \<lparr>ReturnCodes = codes,
                     PacketID = of_nat (256 * unat (elems src ! hl) + unat (elems src ! (hl + 1)))\<rparr>
          in length codes = nat (rl - 2) \<and>
             ((\<forall>c \<in> set codes. c \<in> {0, 1, 2, 0x80}) \<longrightarrow>
                Decode headerDecode sm src = Return (hl + 2 + nat (rl - 2), None, sm')) \<and>
             ((\<exists>c \<in> set codes. c \<notin> {0, 1, 2, 0x80}) \<longrightarrow>
                (\<exists>i < length codes. codes ! i \<notin> {0, 1, 2, 0x80} \<and>
                   (\<forall>j < i. codes ! j \<in> {0, 1, 2, 0x80}) \<and>
                   Decode headerDecode sm src
                     = Return (hl + 2 + nat (rl - 2), Some (InvalidReturnCode (codes ! i) i), sm')))))) \<and>
   ((\<exists>c \<in> set (ReturnCodes sm). c \<notin> {0, 1, 2, 0x80}) \<longrightarrow>
      (\<exists>i < length (ReturnCodes sm). ReturnCodes sm ! i \<notin> {0, 1, 2, 0x80} \<and>
         (\<forall>j < i. ReturnCodes sm ! j \<in> {0, 1, 2, 0x80}) \<and>
         Encode headerEncode headerLen sm dst
           = Return (0, Some (InvalidReturnCode (ReturnCodes sm ! i) i), dst)))"
proof (intro conjI impI)
  assume "headerDecode src SUBACK = (hl, fl, rl, Some err)"
  then show "Decode headerDecode sm src = Return (hl, Some (HeaderError err), sm)"
    by (simp add: Decode_def)
next
  assume "headerDecode src SUBACK = (hl, fl, rl, None)" "length (elems src) < hl + 2"
  then show "Decode headerDecode sm src
      = Return (hl, Some (InsufficientBuffer (hl + 2) (length (elems src))), sm)"
    by (simp add: Decode_def)
next
  assume "headerDecode src SUBACK = (hl, fl, rl, None)" "hl + 2 \<le> length (elems src) \<and> rl \<le> 2"
  then show "Decode headerDecode sm src = Return (hl, Some (RemainingLength rl), sm)"
    by (simp add: Decode_def)
next
  assume "headerDecode src SUBACK = (hl, fl, rl, None)"
    "hl + 2 \<le> length (elems src) \<and> 2 < rl \<and> cap src < hl + 2 + nat (rl - 2)"
  then show "Decode headerDecode sm src = Panic"
    by (simp add: Decode_def Let_def)
next
  assume h: "headerDecode src SUBACK = (hl, fl, rl, None)"
    and c: "hl + 2 \<le> length (elems src) \<and> 2 < rl \<and> hl + 2 + nat (rl - 2) \<le> cap src"
  let ?codes = "take (nat (rl - 2)) (drop (hl + 2) (elems src @ spare src))"
  let ?sm = "\<lparr>ReturnCodes = ?codes,
      PacketID = of_nat (256 * unat (elems src ! hl) + unat (elems src ! (hl + 1)))\<rparr>"
  from c have c1: "hl + 2 \<le> length (elems src)" and c2: "2 < rl"
    and c3: "hl + 2 + nat (rl - 2) \<le> cap src" by blast+
  note body = Decode_body [where headerDecode = headerDecode and sm = sm, OF h c1 c2 c3]
  have len: "length ?codes = nat (rl - 2)"
    using c3 by (simp add: cap_def)
  have good: "Decode headerDecode sm src = Return (hl + 2 + nat (rl - 2), None, ?sm)"
    if "\<forall>c \<in> set ?codes. c \<in> {0, 1, 2, 0x80}"
  proof -
    from that have "first_invalid_code 0 ?codes = None"
      unfolding first_invalid_code_None valid_code_iff .
    with body show ?thesis by simp
  qed
  have bad: "\<exists>i < length ?codes. ?codes ! i \<notin> {0, 1, 2, 0x80} \<and>
        (\<forall>j < i. ?codes ! j \<in> {0, 1, 2, 0x80}) \<and>
        Decode headerDecode sm src
          = Return (hl + 2 + nat (rl - 2), Some (InvalidReturnCode (?codes ! i) i), ?sm)"
    if "\<exists>c \<in> set ?codes. c \<notin> {0, 1, 2, 0x80}"
  proof -
    from first_bad_code [OF that] obtain i where i: "i < length ?codes"
      "?codes ! i \<notin> {0, 1, 2, 0x80}" "\<forall>j < i. ?codes ! j \<in> {0, 1, 2, 0x80}"
      "first_invalid_code 0 ?codes = Some (?codes ! i, i)" by blast
    from body i(4)
    have "Decode headerDecode sm src
        = Return (hl + 2 + nat (rl - 2), Some (InvalidReturnCode (?codes ! i) i), ?sm)"
      by simp
    with i(1-3) show ?thesis by blast
  qed
  show "let codes = ?codes; sm' = \<lparr>ReturnCodes = codes,
            PacketID = of_nat (256 * unat (elems src ! hl) + unat (elems src ! (hl + 1)))\<rparr>
        in length codes = nat (rl - 2) \<and>
           ((\<forall>c \<in> set codes. c \<in> {0, 1, 2, 0x80}) \<longrightarrow>
              Decode headerDecode sm src = Return (hl + 2 + nat (rl - 2), None, sm')) \<and>
           ((\<exists>c \<in> set codes. c \<notin> {0, 1, 2, 0x80}) \<longrightarrow>
              (\<exists>i < length codes. codes ! i \<notin> {0, 1, 2, 0x80} \<and>
                 (\<forall>j < i. codes ! j \<in> {0, 1, 2, 0x80}) \<and>
                 Decode headerDecode sm src
                   = Return (hl + 2 + nat (rl - 2), Some (InvalidReturnCode (codes ! i) i), sm')))"
    unfolding Let_def using len good bad by blast
next
  assume "\<exists>c \<in> set (ReturnCodes sm). c \<notin> {0, 1, 2, 0x80}"
  from first_bad_code [OF this] obtain i where i: "i < length (ReturnCodes sm)"
    "ReturnCodes sm ! i \<notin> {0, 1, 2, 0x80}" "\<forall>j < i. ReturnCodes sm ! j \<in> {0, 1, 2, 0x80}"
    "first_invalid_code 0 (ReturnCodes sm) = Some (ReturnCodes sm ! i, i)" by blast
  from i(4) have "Encode headerEncode headerLen sm dst
      = Return (0, Some (InvalidReturnCode (ReturnCodes sm ! i) i), dst)"
    by (simp add: Encode_def)
  with i(1-3) show "\<exists>i < length (ReturnCodes sm). ReturnCodes sm ! i \<notin> {0, 1, 2, 0x80} \<and>
      (\<forall>j < i. ReturnCodes sm ! j \<in> {0, 1, 2, 0x80}) \<and>
      Encode headerEncode headerLen sm dst
        = Return (0, Some (InvalidReturnCode (ReturnCodes sm ! i) i), dst)"
    by blast
qed


theorem Suback_codec_witness:
  "Decode header1Decode \<lparr>ReturnCodes = [], PacketID = 0\<rparr> \<lparr>elems = [0x90], spare = []\<rparr>
     = Return (0, Some (HeaderError ''buffer''), \<lparr>ReturnCodes = [], PacketID = 0\<rparr>) \<and>
   Decode header1Decode \<lparr>ReturnCodes = [], PacketID = 0\<rparr> \<lparr>elems = [0x90, 3, 0], spare = [7, 1]\<rparr>
     = Return (2, Some (InsufficientBuffer 4 3), \<lparr>ReturnCodes = [], PacketID = 0\<rparr>) \<and>
   Decode header1Decode \<lparr>ReturnCodes = [], PacketID = 0\<rparr> \<lparr>elems = [0x90, 2, 0, 7], spare = []\<rparr>
     = Return (2, Some (RemainingLength 2), \<lparr>ReturnCodes = [], PacketID = 0\<rparr>) \<and>
   Decode header1Decode \<lparr>ReturnCodes = [], PacketID = 0\<rparr> \<lparr>elems = [0x90, 4, 0, 7, 1], spare = []\<rparr>
     = Panic \<and>
   Decode header1Decode \<lparr>ReturnCodes = [], PacketID = 0\<rparr> \<lparr>elems = [0x90, 4, 1, 7, 1, 0x80], spare = []\<rparr>
     = Return (6, None, \<lparr>ReturnCodes = [1, 0x80], PacketID = 263\<rparr>) \<and>
   Decode header1Decode \<lparr>ReturnCodes = [], PacketID = 0\<rparr> \<lparr>elems = [0x90, 4, 1, 7], spare = [1, 0x80]\<rparr>
     = Return (6, None, \<lparr>ReturnCodes = [1, 0x80], PacketID = 263\<rparr>) \<and>
   Decode header1Decode \<lparr>ReturnCodes = [], PacketID = 0\<rparr> \<lparr>elems = [0x90, 4, 0, 7, 1, 3], spare = []\<rparr>
     = Return (6, Some (InvalidReturnCode 3 1), \<lparr>ReturnCodes = [1, 3], PacketID = 7\<rparr>) \<and>
   Encode header1Encode (\<lambda>ml. 2) \<lparr>ReturnCodes = [0, 3], PacketID = 7\<rparr>
       \<lparr>elems = [0, 0, 0, 0, 0, 0], spare = []\<rparr>
     = Return (0, Some (InvalidReturnCode 3 1), \<lparr>elems = [0, 0, 0, 0, 0, 0], spare = []\<rparr>)"
proof -
  let ?sm = "\<lparr>ReturnCodes = [], PacketID = 0\<rparr>"
  note inst = Suback_codec [where headerDecode = header1Decode and headerEncode = header1Encode
      and sm = ?sm]
  have t1: "Decode header1Decode ?sm \<lparr>elems = [0x90], spare = []\<rparr>
      = Return (0, Some (HeaderError ''buffer''), ?sm)"
    using inst [where src = "\<lparr>elems = [0x90], spare = []\<rparr>" and hl = 0 and fl = 0 and rl = 0
        and err = "''buffer''"]
    by (simp add: header1Decode_def)
  have t2: "Decode header1Decode ?sm \<lparr>elems = [0x90, 3, 0], spare = [7, 1]\<rparr>
      = Return (2, Some (InsufficientBuffer 4 3), ?sm)"
    using inst [where src = "\<lparr>elems = [0x90, 3, 0], spare = [7, 1]\<rparr>" and hl = 2 and fl = 0 and rl = 3]
    by (simp add: header1Decode_def SUBACK_def)
  have t3: "Decode header1Decode ?sm \<lparr>elems = [0x90, 2, 0, 7], spare = []\<rparr>
      = Return (2, Some (RemainingLength 2), ?sm)"
    using inst [where src = "\<lparr>elems = [0x90, 2, 0, 7], spare = []\<rparr>" and hl = 2 and fl = 0 and rl = 2]
    by (simp add: header1Decode_def SUBACK_def)
  have t4: "Decode header1Decode ?sm \<lparr>elems = [0x90, 4, 0, 7, 1], spare = []\<rparr> = Panic"
    using inst [where src = "\<lparr>elems = [0x90, 4, 0, 7, 1], spare = []\<rparr>" and hl = 2 and fl = 0 and rl = 4]
    by (simp add: header1Decode_def SUBACK_def cap_def Let_def)
  have t5: "Decode header1Decode ?sm \<lparr>elems = [0x90, 4, 1, 7, 1, 0x80], spare = []\<rparr>
      = Return (6, None, \<lparr>ReturnCodes = [1, 0x80], PacketID = 263\<rparr>)"
    using inst [where src = "\<lparr>elems = [0x90, 4, 1, 7, 1, 0x80], spare = []\<rparr>" and hl = 2 and fl = 0 and rl = 4]
    by (simp add: header1Decode_def SUBACK_def cap_def Let_def)
  have t6: "Decode header1Decode ?sm \<lparr>elems = [0x90, 4, 1, 7], spare = [1, 0x80]\<rparr>
      = Return (6, None, \<lparr>ReturnCodes = [1, 0x80], PacketID = 263\<rparr>)"
    using inst [where src = "\<lparr>elems = [0x90, 4, 1, 7], spare = [1, 0x80]\<rparr>" and hl = 2 and fl = 0 and rl = 4]
    by (simp add: header1Decode_def SUBACK_def cap_def Let_def)
  have t7: "Decode header1Decode ?sm \<lparr>elems = [0x90, 4, 0, 7, 1, 3], spare = []\<rparr>
      = Return (6, Some (InvalidReturnCode 3 1), \<lparr>ReturnCodes = [1, 3], PacketID = 7\<rparr>)"
    using inst [where src = "\<lparr>elems = [0x90, 4, 0, 7, 1, 3], spare = []\<rparr>" and hl = 2 and fl = 0 and rl = 4]
    by (auto simp add: header1Decode_def SUBACK_def cap_def less_Suc_eq Let_def)
  have t8: "Encode header1Encode (\<lambda>ml. 2) \<lparr>ReturnCodes = [0, 3], PacketID = 7\<rparr>
       \<lparr>elems = [0, 0, 0, 0, 0, 0], spare = []\<rparr>
     = Return (0, Some (InvalidReturnCode 3 1), \<lparr>elems = [0, 0, 0, 0, 0, 0], spare = []\<rparr>)"
    using Suback_codec [where headerDecode = header1Decode and headerEncode = header1Encode
        and sm = "\<lparr>ReturnCodes = [0, 3], PacketID = 7\<rparr>" and headerLen = "\<lambda>ml. 2"
        and dst = "\<lparr>elems = [0, 0, 0, 0, 0, 0], spare = []\<rparr>", THEN conjunct2, THEN conjunct2]
    by (auto simp add: less_Suc_eq)
  show ?thesis using t1 t2 t3 t4 t5 t6 t7 t8 by blast
qed

section \<open>Properties of the memory backend\<close>

subsection \<open>Authenticate\<close>



subsection \<open>Terminate\<close>



subsection \<open>QueueRetained\<close>

lemma queue_values_eq:
  "queue_values vs s =
     (s\<lparr>queue := queue s @ take (capacity s - length (queue s)) vs\<rparr>,
      length vs \<le> capacity s - length (queue s))"
proof (induction vs arbitrary: s)
  case Nil
  then show ?case by simp
next
  case (Cons v vs)
  show ?case
  proof (cases "length (queue s) < capacity s")
    case True
    then have k: "capacity s - length (queue s) = Suc (capacity s - Suc (length (queue s)))"
      by arith
    show ?thesis using True by (simp add: Cons.IH k)
  next
    case False
    then show ?thesis by simp
  qed
qed

text \<open>
  Claim C9. \<^verbatim>\<open>QueueRetained\<close> always returns (it never waits): with \<open>room\<close> the free
  places of the client's own queue, it appends the first \<open>room\<close> of the retained messages
  found for the topic, in order; it returns \<^verbatim>\<open>nil\<close> when all of them fit and
  \<^verbatim>\<open>ErrQueueFull\<close> otherwise, and then the first message that did not fit and all
  later ones are not in the queue.
\<close>

theorem QueueRetained_result:
  "QueueRetained client topic m =
     (let vs = Tree_Search (retainedMessages m) topic;
          s = heap m (Session client);
          room = capacity s - length (queue s)
      in Returns (if length vs \<le> room then None else Some ErrQueueFull)
           (m\<lparr>heap := (heap m)(Session client := s\<lparr>queue := queue s @ take room vs\<rparr>)\<rparr>))"
  by (simp add: QueueRetained_def queue_values_eq Let_def)

theorem QueueRetained_result_witness:
  "QueueRetained sample_client ''a/b''
      (durable_backend\<lparr>retainedMessages := Tree_Set ''a/b'' empty_retained NewTree\<rparr>)
     = Returns None (durable_backend\<lparr>retainedMessages := Tree_Set ''a/b'' empty_retained NewTree,
         heap := (\<lambda>r. zero_session)(0 := \<lparr>subscriptions = NewTree, queue = [empty_retained],
           capacity = 100, owner = Some 1, kill_ch = Open, done_ch = Open\<rparr>)\<rparr>)"
  unfolding QueueRetained_result [of sample_client "''a/b''"
      "durable_backend\<lparr>retainedMessages := Tree_Set ''a/b'' empty_retained NewTree\<rparr>"]
  by (simp add: durable_backend_def NewMemoryBackend_def sample_client_def empty_retained_def
      Tree_Search_def Tree_Set_def hidden_topic_def child_def NewTree_def Let_def fun_eq_iff)

subsection \<open>StoreRetained and ClearRetained\<close>

lemma node_get_NewTree: "node_get p NewTree = []"
  by (cases p) (simp_all add: NewTree_def)

lemma child_get: "node_get p (child n l) = node_get (l # p) n"
  by (simp add: child_def node_get_NewTree split: option.split)

lemma node_get_set: "node_get p (node_set ls v n) = (if p = ls then [v] else node_get p n)"
proof (induction ls arbitrary: p n)
  case Nil
  then show ?case by (cases p) simp_all
next
  case (Cons l ls)
  show ?case
  proof (cases p)
    case Nil
    then show ?thesis by simp
  next
    case (Cons k ks)
    then show ?thesis
      using Cons.IH [of ks "child n l"] by (auto simp: child_get)
  qed
qed

lemma node_get_empty: "node_get p (node_empty ls n) = (if p = ls then [] else node_get p n)"
proof (induction ls arbitrary: p n)
  case Nil
  then show ?case by (cases p) simp_all
next
  case (Cons l ls)
  show ?case
  proof (cases p)
    case Nil
    then show ?thesis by (simp split: option.split)
  next
    case (Cons k ks)
    then show ?thesis
      using Cons.IH [of ks] by (auto split: option.split)
  qed
qed

lemma nvalues_child: "nvalues (child n l) = node_get [l] n"
  by (simp add: child_def NewTree_def split: option.split)

lemma set_node_search:
  "set (node_search ls n) = (\<Union>p \<in> set (patterns ls). set (node_get p n))"
proof (induction ls arbitrary: n)
  case Nil
  then show ?case by (simp add: nvalues_child)
next
  case (Cons l ls)
  have "set (node_search (l # ls) n) =
      set (node_get [''#''] n) \<union>
      (case children n ''+'' of None \<Rightarrow> {} | Some c \<Rightarrow> set (node_search ls c)) \<union>
      (case children n l of None \<Rightarrow> {} | Some c \<Rightarrow> set (node_search ls c))"
    by (simp add: nvalues_child Un_assoc split: option.split)
  also have "\<dots> = set (node_get [''#''] n) \<union>
      (\<Union>p \<in> set (patterns ls). set (node_get (''+'' # p) n)) \<union>
      (\<Union>p \<in> set (patterns ls). set (node_get (l # p) n))"
    by (simp add: Cons.IH split: option.split)
  finally show ?case by (simp add: Un_assoc)
qed

lemma set_Tree_Search:
  "set (Tree_Search t topic) = (\<Union>p \<in> set (matching_keys topic). set (node_get p t))"
proof (cases "hidden_topic (split_topic topic)")
  case True
  then obtain l ls where s: "split_topic topic = l # ls"
    by (cases "split_topic topic") (auto simp: hidden_topic_def)
  show ?thesis using True
    by (auto simp add: Tree_Search_def matching_keys_def s set_node_search split: option.splits)
next
  case False
  then show ?thesis
    by (simp add: Tree_Search_def matching_keys_def set_node_search)
qed

lemma patterns_self: "ls \<in> set (patterns ls)"
  by (induction ls) auto

lemma split_topic_nonempty: "split_topic topic \<noteq> []"
  by (induction topic) (auto split: list.split)

lemma matching_keys_self: "split_topic topic \<in> set (matching_keys topic)"
proof (cases "split_topic topic")
  case Nil
  then show ?thesis using split_topic_nonempty by blast
next
  case (Cons l ls)
  then show ?thesis
    using patterns_self [of ls] patterns_self [of "l # ls"] by (auto simp: matching_keys_def Let_def)
qed

lemma Copy_id: "Copy msg = msg"
  by (simp add: Copy_def)

text \<open>
  Claim C3, as amended. \<^verbatim>\<open>StoreRetained\<close> makes the message the only value at the tree
  entry of its topic, whatever its payload, and leaves every other entry as it was; a
  search of that topic then returns the message. It is \<^verbatim>\<open>ClearRetained\<close> that clears
  the entry of a topic: afterwards the entry holds nothing, every other entry is as it
  was, and a search of the topic returns exactly what the other entries that match the
  topic hold, so no message from the cleared entry.
\<close>

theorem Retained_store_and_clear:
  "(\<exists>m'. StoreRetained client msg m = Returns None m' \<and>
        Tree_Get (retainedMessages m') (Topic msg) = [msg] \<and>
        msg \<in> set (Tree_Search (retainedMessages m') (Topic msg)) \<and>
        (\<forall>p. p \<noteq> split_topic (Topic msg) \<longrightarrow>
           node_get p (retainedMessages m') = node_get p (retainedMessages m))) \<and>
   (\<exists>m'. ClearRetained client topic m = Returns None m' \<and>
        Tree_Get (retainedMessages m') topic = [] \<and>
        set (Tree_Search (retainedMessages m') topic) =
          (\<Union>p \<in> set (matching_keys topic) - {split_topic topic}. set (node_get p (retainedMessages m))) \<and>
        (\<forall>p. p \<noteq> split_topic topic \<longrightarrow>
           node_get p (retainedMessages m') = node_get p (retainedMessages m)))"
proof (intro conjI)
  let ?m' = "m\<lparr>retainedMessages := Tree_Set (Topic msg) (Copy msg) (retainedMessages m)\<rparr>"
  have get: "\<And>p. node_get p (retainedMessages ?m') =
      (if p = split_topic (Topic msg) then [msg] else node_get p (retainedMessages m))"
    by (simp add: Tree_Set_def node_get_set Copy_id)
  have "msg \<in> set (Tree_Search (retainedMessages ?m') (Topic msg))"
    unfolding set_Tree_Search using matching_keys_self [of "Topic msg"] get by force
  moreover have "Tree_Get (retainedMessages ?m') (Topic msg) = [msg]"
    unfolding Tree_Get_def using get by simp
  moreover have "StoreRetained client msg m = Returns None ?m'"
    by (simp add: StoreRetained_def)
  ultimately show "\<exists>m'. StoreRetained client msg m = Returns None m' \<and>
        Tree_Get (retainedMessages m') (Topic msg) = [msg] \<and>
        msg \<in> set (Tree_Search (retainedMessages m') (Topic msg)) \<and>
        (\<forall>p. p \<noteq> split_topic (Topic msg) \<longrightarrow>
           node_get p (retainedMessages m') = node_get p (retainedMessages m))"
    using get by (intro exI [of _ ?m']) simp
next
  let ?m' = "m\<lparr>retainedMessages := Tree_Empty topic (retainedMessages m)\<rparr>"
  have get: "\<And>p. node_get p (retainedMessages ?m') =
      (if p = split_topic topic then [] else node_get p (retainedMessages m))"
    by (simp add: Tree_Empty_def node_get_empty)
  have "set (Tree_Search (retainedMessages ?m') topic) =
          (\<Union>p \<in> set (matching_keys topic) - {split_topic topic}. set (node_get p (retainedMessages m)))"
    unfolding set_Tree_Search using get by (auto split: if_splits)
  moreover have "Tree_Get (retainedMessages ?m') topic = []"
    unfolding Tree_Get_def using get by simp
  moreover have "ClearRetained client topic m = Returns None ?m'"
    by (simp add: ClearRetained_def)
  ultimately show "\<exists>m'. ClearRetained client topic m = Returns None m' \<and>
        Tree_Get (retainedMessages m') topic = [] \<and>
        set (Tree_Search (retainedMessages m') topic) =
          (\<Union>p \<in> set (matching_keys topic) - {split_topic topic}. set (node_get p (retainedMessages m))) \<and>
        (\<forall>p. p \<noteq> split_topic topic \<longrightarrow>
           node_get p (retainedMessages m') = node_get p (retainedMessages m))"
    using get by (intro exI [of _ ?m']) simp
qed

theorem Retained_store_and_clear_witness:
  "Tree_Get (Tree_Set ''a/b'' empty_retained NewTree) ''a/b'' = [empty_retained] \<and>
   ClearRetained sample_client ''a/b''
       (NewMemoryBackend\<lparr>retainedMessages := Tree_Set ''a/b'' empty_retained NewTree\<rparr>)
     = Returns None (NewMemoryBackend\<lparr>retainedMessages :=
         Tree_Empty ''a/b'' (Tree_Set ''a/b'' empty_retained NewTree)\<rparr>) \<and>
   Tree_Get (Tree_Empty ''a/b'' (Tree_Set ''a/b'' empty_retained NewTree)) ''a/b'' = []"
proof -
  let ?m = "NewMemoryBackend\<lparr>retainedMessages := Tree_Set ''a/b'' empty_retained NewTree\<rparr>"
  have c: "ClearRetained sample_client ''a/b'' ?m
     = Returns None (NewMemoryBackend\<lparr>retainedMessages :=
         Tree_Empty ''a/b'' (Tree_Set ''a/b'' empty_retained NewTree)\<rparr>)"
    by (simp add: ClearRetained_def)
  have s: "StoreRetained sample_client empty_retained NewMemoryBackend = Returns None ?m"
    by (simp add: StoreRetained_def Copy_def empty_retained_def NewMemoryBackend_def)
  from Retained_store_and_clear [where client = sample_client and msg = empty_retained
      and m = NewMemoryBackend and topic = "''a/b''"] s
  have g: "Tree_Get (Tree_Set ''a/b'' empty_retained NewTree) ''a/b'' = [empty_retained]"
    by (simp add: empty_retained_def)
  from Retained_store_and_clear [where client = sample_client and msg = empty_retained
      and m = ?m and topic = "''a/b''"] c
  have e: "Tree_Get (Tree_Empty ''a/b'' (Tree_Set ''a/b'' empty_retained NewTree)) ''a/b'' = []"
    by simp
  show ?thesis using g c e by blast
qed

text \<open>
  Claim C3 as stated fails: \<^verbatim>\<open>StoreRetained\<close> of a message with an empty payload stores
  the message, and a search of its topic returns it.
\<close>

theorem StoreRetained_empty_payload_counterexample:
  "Payload empty_retained = [] \<and>
   StoreRetained sample_client empty_retained NewMemoryBackend =
     Returns None (NewMemoryBackend\<lparr>retainedMessages := Tree_Set ''a/b'' empty_retained NewTree\<rparr>) \<and>
   Tree_Search (Tree_Set ''a/b'' empty_retained NewTree) ''a/b'' = [empty_retained]"
  by (simp add: StoreRetained_def empty_retained_def NewMemoryBackend_def Copy_def
      Tree_Search_def Tree_Set_def hidden_topic_def child_def NewTree_def)

subsection \<open>Close\<close>

lemma set_values_in: "set (values_in mp keys) = {v. \<exists>k \<in> set keys. mp k = Some v}"
  by (induction keys) (auto simp: values_in_def split: option.splits)

lemma set_values_in_dom: "set keys = dom mp \<Longrightarrow> set (values_in mp keys) = ran mp"
  by (auto simp: set_values_in ran_def dom_def)

lemma kill_sessions_iff:
  "kill_sessions rs h =
     (if distinct rs \<and> (\<forall>r \<in> set rs. kill_ch (h r) = Open)
      then Some (\<lambda>r. if r \<in> set rs then (h r)\<lparr>kill_ch := Closed\<rparr> else h r, rs)
      else None)"
proof (induction rs arbitrary: h)
  case Nil
  then show ?case by simp
next
  case (Cons a rs)
  let ?h = "h(a := (h a)\<lparr>kill_ch := Closed\<rparr>)"
  have c: "(distinct rs \<and> (\<forall>r \<in> set rs. kill_ch (?h r) = Open)) \<longleftrightarrow>
      (distinct rs \<and> a \<notin> set rs \<and> (\<forall>r \<in> set rs. kill_ch (h r) = Open))"
    by auto
  have f: "a \<notin> set rs \<Longrightarrow> (\<lambda>r. if r \<in> set rs then (?h r)\<lparr>kill_ch := Closed\<rparr> else ?h r) =
      (\<lambda>r. if r \<in> set (a # rs) then (h r)\<lparr>kill_ch := Closed\<rparr> else h r)"
    by (auto simp: fun_eq_iff)
  show ?case
  proof (cases "kill_ch (h a) = Closed")
    case True
    then show ?thesis by auto
  next
    case False
    then have o: "kill_ch (h a) = Open" by (cases "kill_ch (h a)") auto
    show ?thesis
      unfolding kill_sessions.simps Cons.IH [of ?h] c using o f by auto
  qed
qed

lemma kill_owned_sessions_iff:
  "kill_owned_sessions rs h =
     (if distinct (filter (\<lambda>r. owner (h r) \<noteq> None) rs) \<and>
         (\<forall>r \<in> set rs. owner (h r) \<noteq> None \<longrightarrow> kill_ch (h r) = Open)
      then Some (\<lambda>r. if r \<in> set rs \<and> owner (h r) \<noteq> None then (h r)\<lparr>kill_ch := Closed\<rparr> else h r,
                 filter (\<lambda>r. owner (h r) \<noteq> None) rs)
      else None)"
proof (induction rs arbitrary: h)
  case Nil
  then show ?case by simp
next
  case (Cons a rs)
  show ?case
  proof (cases "owner (h a) \<noteq> None")
    case owned: True
    let ?h = "h(a := (h a)\<lparr>kill_ch := Closed\<rparr>)"
    have fl: "filter (\<lambda>r. owner (?h r) \<noteq> None) rs = filter (\<lambda>r. owner (h r) \<noteq> None) rs"
      by (rule filter_cong) auto
    have c: "(distinct (filter (\<lambda>r. owner (?h r) \<noteq> None) rs) \<and>
              (\<forall>r \<in> set rs. owner (?h r) \<noteq> None \<longrightarrow> kill_ch (?h r) = Open)) \<longleftrightarrow>
      (distinct (filter (\<lambda>r. owner (h r) \<noteq> None) rs) \<and> a \<notin> set rs \<and>
         (\<forall>r \<in> set rs. owner (h r) \<noteq> None \<longrightarrow> kill_ch (h r) = Open))"
      unfolding fl using owned by auto
    have f: "a \<notin> set rs \<Longrightarrow>
      (\<lambda>r. if r \<in> set rs \<and> owner (?h r) \<noteq> None then (?h r)\<lparr>kill_ch := Closed\<rparr> else ?h r) =
      (\<lambda>r. if r \<in> set (a # rs) \<and> owner (h r) \<noteq> None then (h r)\<lparr>kill_ch := Closed\<rparr> else h r)"
      using owned by (auto simp: fun_eq_iff)
    show ?thesis
    proof (cases "kill_ch (h a) = Closed")
      case True
      then show ?thesis using owned by auto
    next
      case False
      then have o: "kill_ch (h a) = Open" by (cases "kill_ch (h a)") auto
      show ?thesis
        unfolding kill_owned_sessions.simps Cons.IH [of ?h] c fl using o f owned by auto
    qed
  next
    case False
    have f: "(\<lambda>r. if r \<in> set rs \<and> owner (h r) \<noteq> None then (h r)\<lparr>kill_ch := Closed\<rparr> else h r) =
        (\<lambda>r. if r \<in> set (a # rs) \<and> owner (h r) \<noteq> None then (h r)\<lparr>kill_ch := Closed\<rparr> else h r)"
      using False by (auto simp: fun_eq_iff)
    show ?thesis
      unfolding kill_owned_sessions.simps Cons.IH [of h] using False f by auto
  qed
qed

lemma wait_done_iff: "wait_done fires list = (\<forall>ch \<in> set list. fires ch)"
  by (induction list) auto

lemma Close_total:
  "Close tkeys skeys fires m =
     (if globalMutex m then Blocks m
      else if distinct (close_list tkeys skeys m) \<and>
              (\<forall>r \<in> set (close_list tkeys skeys m). kill_ch (heap m r) = Open)
      then Returns (\<forall>r \<in> set (close_list tkeys skeys m). fires r)
             (m\<lparr>closing := True,
                heap := (\<lambda>r. if r \<in> set (close_list tkeys skeys m)
                             then (heap m r)\<lparr>kill_ch := Closed\<rparr> else heap m r)\<rparr>)
      else Panics)"
proof (cases "globalMutex m")
  case True
  then show ?thesis by (simp add: Close_def Lock_global_def)
next
  case free: False
  let ?ts = "values_in (temporarySessions m) tkeys"
  let ?ss = "values_in (storedSessions m) skeys"
  let ?os = "filter (\<lambda>r. owner (heap m r) \<noteq> None) ?ss"
  let ?h1 = "\<lambda>r. if r \<in> set ?ts then (heap m r)\<lparr>kill_ch := Closed\<rparr> else heap m r"
  have cl: "close_list tkeys skeys m = ?ts @ ?os" by (simp add: close_list_def)
  have fl: "filter (\<lambda>r. owner (?h1 r) \<noteq> None) ?ss = ?os"
    by (rule filter_cong) auto
  have unf: "Close tkeys skeys fires m =
      (case kill_sessions ?ts (heap m) of
         None \<Rightarrow> Panics
       | Some (h1, list1) \<Rightarrow>
           (case kill_owned_sessions ?ss h1 of
              None \<Rightarrow> Panics
            | Some (h2, list2) \<Rightarrow>
                Returns (wait_done fires (list1 @ list2)) (m\<lparr>closing := True, heap := h2\<rparr>)))"
    using free
    by (auto simp: Close_def Lock_global_def Let_def split: option.splits)
  show ?thesis
  proof (cases "distinct ?ts \<and> (\<forall>r \<in> set ?ts. kill_ch (heap m r) = Open)")
    case False
    then have "kill_sessions ?ts (heap m) = None" by (simp add: kill_sessions_iff)
    moreover from False have "\<not> (distinct (close_list tkeys skeys m) \<and>
        (\<forall>r \<in> set (close_list tkeys skeys m). kill_ch (heap m r) = Open))"
      unfolding cl by auto
    ultimately show ?thesis using free unf by simp
  next
    case t: True
    then have k1: "kill_sessions ?ts (heap m) = Some (?h1, ?ts)" by (simp add: kill_sessions_iff)
    have c2: "(distinct (filter (\<lambda>r. owner (?h1 r) \<noteq> None) ?ss) \<and>
         (\<forall>r \<in> set ?ss. owner (?h1 r) \<noteq> None \<longrightarrow> kill_ch (?h1 r) = Open)) \<longleftrightarrow>
       (distinct (close_list tkeys skeys m) \<and>
        (\<forall>r \<in> set (close_list tkeys skeys m). kill_ch (heap m r) = Open))"
      unfolding fl cl using t by auto
    show ?thesis
    proof (cases "distinct (close_list tkeys skeys m) \<and>
        (\<forall>r \<in> set (close_list tkeys skeys m). kill_ch (heap m r) = Open)")
      case False
      with c2 have "kill_owned_sessions ?ss ?h1 = None"
        by (simp add: kill_owned_sessions_iff)
      with k1 unf False free show ?thesis by simp
    next
      case ok: True
      with c2 have k2: "kill_owned_sessions ?ss ?h1 =
          Some (\<lambda>r. if r \<in> set ?ss \<and> owner (?h1 r) \<noteq> None then (?h1 r)\<lparr>kill_ch := Closed\<rparr> else ?h1 r, ?os)"
        by (simp add: kill_owned_sessions_iff fl)
      have h2: "(\<lambda>r. if r \<in> set ?ss \<and> owner (?h1 r) \<noteq> None then (?h1 r)\<lparr>kill_ch := Closed\<rparr> else ?h1 r) =
          (\<lambda>r. if r \<in> set (close_list tkeys skeys m) then (heap m r)\<lparr>kill_ch := Closed\<rparr> else heap m r)"
        by (auto simp: fun_eq_iff close_list_def)
      have "Close tkeys skeys fires m =
          Returns (wait_done fires (?ts @ ?os))
            (m\<lparr>closing := True,
               heap := (\<lambda>r. if r \<in> set (close_list tkeys skeys m)
                            then (heap m r)\<lparr>kill_ch := Closed\<rparr> else heap m r)\<rparr>)"
        by (simp only: unf k1 k2 [unfolded h2] option.case prod.case)
      then show ?thesis
        using ok free by (simp add: wait_done_iff cl)
    qed
  qed
qed


text \<open>
  Claim C6. A call of \<^verbatim>\<open>Close\<close> waits while the global mutex is held. Otherwise it goes
  through every temporary session and every stored session that has an owner. When
  these sessions are distinct and their kill channels are all still open, the call
  returns, with the closing flag set, the kill channel of each of them closed and
  nothing else changed, and it returns true exactly when the done channel of each of
  them fires before the one timer (so true when there is none). In every other case, as
  when a Setup has closed the kill channel of a session it takes over and waits, or
  when Close was called before and a client has not terminated yet, \<^verbatim>\<open>close(sess.kill)\<close>
  panics, where the claim has the call signal the session and return.
\<close>

theorem Close_result:
  "Close tkeys skeys fires m =
     (if globalMutex m then Blocks m
      else if distinct (close_list tkeys skeys m) \<and>
              (\<forall>r \<in> set (close_list tkeys skeys m). kill_ch (heap m r) = Open)
      then Returns (\<forall>r \<in> set (close_list tkeys skeys m). fires r)
             (m\<lparr>closing := True,
                heap := (\<lambda>r. if r \<in> set (close_list tkeys skeys m)
                             then (heap m r)\<lparr>kill_ch := Closed\<rparr> else heap m r)\<rparr>)
      else Panics) \<and>
   (set tkeys = dom (temporarySessions m) \<and> set skeys = dom (storedSessions m) \<longrightarrow>
      set (close_list tkeys skeys m) =
        ran (temporarySessions m) \<union> {r \<in> ran (storedSessions m). owner (heap m r) \<noteq> None})"
proof (intro conjI impI)
  show "Close tkeys skeys fires m =
     (if globalMutex m then Blocks m
      else if distinct (close_list tkeys skeys m) \<and>
              (\<forall>r \<in> set (close_list tkeys skeys m). kill_ch (heap m r) = Open)
      then Returns (\<forall>r \<in> set (close_list tkeys skeys m). fires r)
             (m\<lparr>closing := True,
                heap := (\<lambda>r. if r \<in> set (close_list tkeys skeys m)
                             then (heap m r)\<lparr>kill_ch := Closed\<rparr> else heap m r)\<rparr>)
      else Panics)"
    by (rule Close_total)
next
  assume "set tkeys = dom (temporarySessions m) \<and> set skeys = dom (storedSessions m)"
  then show "set (close_list tkeys skeys m) =
      ran (temporarySessions m) \<union> {r \<in> ran (storedSessions m). owner (heap m r) \<noteq> None}"
    by (auto simp: close_list_def set_values_in_dom)
qed

theorem Close_result_witness:
  "Close [] [''c1''] (\<lambda>r. True) (killed durable_backend ''c1'') = Panics \<and>
   Close [] [''c1''] (\<lambda>r. True) durable_backend =
     Returns True (durable_backend\<lparr>closing := True,
       heap := (\<lambda>r. zero_session)(0 := (durable_session (Some 1))\<lparr>kill_ch := Closed\<rparr>)\<rparr>) \<and>
   Close [] [''c1''] (\<lambda>r. False) durable_backend =
     Returns False (durable_backend\<lparr>closing := True,
       heap := (\<lambda>r. zero_session)(0 := (durable_session (Some 1))\<lparr>kill_ch := Closed\<rparr>)\<rparr>) \<and>
   Close [] [''c1''] (\<lambda>r. True) (durable_backend\<lparr>closing := True,
       heap := (\<lambda>r. zero_session)(0 := (durable_session (Some 1))\<lparr>kill_ch := Closed\<rparr>)\<rparr>) = Panics"
proof -
  let ?h = "(\<lambda>r. zero_session)(0 := (durable_session (Some 1))\<lparr>kill_ch := Closed\<rparr>)"
  let ?closed = "durable_backend\<lparr>closing := True, heap := ?h\<rparr>"
  have h0: "heap durable_backend 0 = durable_session (Some 1)"
    by (simp add: durable_backend_def durable_session_def)
  have hr: "\<And>r. r \<noteq> 0 \<Longrightarrow> heap durable_backend r = zero_session"
    by (simp add: durable_backend_def)
  have st: "storedSessions durable_backend = [''c1'' \<mapsto> 0]"
    "temporarySessions durable_backend = Map.empty" "\<not> globalMutex durable_backend"
    by (simp_all add: durable_backend_def NewMemoryBackend_def)
  have l: "close_list [] [''c1''] durable_backend = [0]"
    by (simp add: close_list_def values_in_def st h0 durable_session_def)
  have heap_eq: "(\<lambda>r. if r \<in> set [0::nat] then (heap durable_backend r)\<lparr>kill_ch := Closed\<rparr>
       else heap durable_backend r) = ?h"
    using hr by (auto simp: fun_eq_iff h0)
  have ex: "existing_session durable_backend ''c1'' = Some 0"
    by (simp add: existing_session_def st)
  have k: "killed durable_backend ''c1'' =
      (locked durable_backend)\<lparr>heap := (heap durable_backend)
         (0 := (durable_session (Some 1))\<lparr>kill_ch := Closed\<rparr>), globalMutex := False\<rparr>"
    by (simp add: killed_def ex h0)
  have lk: "close_list [] [''c1''] (killed durable_backend ''c1'') = [0]"
    by (simp add: k close_list_def values_in_def locked_def st durable_session_def)
  have kk: "kill_ch (heap (killed durable_backend ''c1'') 0) = Closed"
    "\<not> globalMutex (killed durable_backend ''c1'')"
    by (simp_all add: k)
  have lc: "close_list [] [''c1''] ?closed = [0]"
    by (simp add: close_list_def values_in_def st durable_session_def)
  have t1: "Close [] [''c1''] (\<lambda>r. True) (killed durable_backend ''c1'') = Panics"
    using Close_result [of "[]" "[''c1'']" "\<lambda>r. True" "killed durable_backend ''c1''", THEN conjunct1]
    unfolding lk by (simp add: kk)
  have t2: "Close [] [''c1''] (\<lambda>r. True) durable_backend = Returns True ?closed"
    using Close_result [of "[]" "[''c1'']" "\<lambda>r. True" durable_backend, THEN conjunct1]
    unfolding l heap_eq by (simp add: st h0 durable_session_def)
  have t3: "Close [] [''c1''] (\<lambda>r. False) durable_backend = Returns False ?closed"
    using Close_result [of "[]" "[''c1'']" "\<lambda>r. False" durable_backend, THEN conjunct1]
    unfolding l heap_eq by (simp add: st h0 durable_session_def)
  have t4: "Close [] [''c1''] (\<lambda>r. True) ?closed = Panics"
    using Close_result [of "[]" "[''c1'']" "\<lambda>r. True" ?closed, THEN conjunct1]
    unfolding lc by (simp add: st)
  show ?thesis using t1 t2 t3 t4 by blast
qed

subsection \<open>Publish\<close>

lemma deliver_append:
  "deliver room c msg (xs @ ys) m =
     (case deliver room c msg xs m of
        Delivered m' \<Rightarrow> deliver room c msg ys m'
      | Queue_full m' \<Rightarrow> Queue_full m'
      | Send_waits m' \<Rightarrow> Send_waits m')"
  by (induction xs arbitrary: m) (auto split: option.splits)

lemma deliver_stored:
  assumes "\<forall>r a b. room r a = Some b \<longrightarrow> storedSessions b = storedSessions a"
    and "deliver room c msg rs m = Delivered m'"
  shows "storedSessions m' = storedSessions m"
  using assms(2)
proof (induction rs arbitrary: m)
  case Nil
  then show ?case by simp
next
  case (Cons a rs)
  have s: "\<And>x. storedSessions (send a msg x) = storedSessions x" by (simp add: send_def)
  show ?case
  proof (cases "room a m")
    case None
    with Cons.prems show ?thesis
      using Cons.IH [of m] Cons.IH [of "send a msg m"] s by (auto split: if_splits)
  next
    case (Some b)
    with assms(1) have "storedSessions b = storedSessions m" by blast
    with Cons.prems Some show ?thesis
      using Cons.IH [of m] Cons.IH [of "send a msg m"] Cons.IH [of "send a msg b"] s
      by (auto split: if_splits)
  qed
qed

lemma deliver_Queue_full:
  "deliver room c msg rs m = Queue_full m' \<Longrightarrow>
     \<exists>r \<in> set rs. owner (heap m' r) = Some c \<and> wants (heap m') msg r \<and> queue_full (heap m') r"
proof (induction rs arbitrary: m)
  case Nil
  then show ?case by simp
next
  case (Cons a rs)
  then show ?case
    by (auto simp: wants_def queue_full_def not_less split: if_splits option.splits)
qed

lemma Publish_loops:
  assumes free: "\<not> globalMutex m"
    and maps: "\<forall>r a b. room r a = Some b \<longrightarrow> storedSessions b = storedSessions a"
  shows "Publish room tkeys skeys client msg m =
     concludes (deliver room (addr client) msg (publish_order tkeys skeys m) (m\<lparr>globalMutex := True\<rparr>))"
proof -
  let ?m = "m\<lparr>globalMutex := True\<rparr>"
  let ?ts = "values_in (temporarySessions m) tkeys"
  show ?thesis
  proof (cases "deliver room (addr client) msg ?ts ?m")
    case (Delivered m1)
    from deliver_stored [OF maps Delivered] have "storedSessions m1 = storedSessions m" by simp
    with Delivered free show ?thesis
      by (simp add: Publish_def Lock_global_def publish_order_def deliver_append concludes_def
          split: delivery.splits)
  next
    case (Queue_full m1)
    with free show ?thesis
      by (simp add: Publish_def Lock_global_def publish_order_def deliver_append concludes_def)
  next
    case (Send_waits m1)
    with free show ?thesis
      by (simp add: Publish_def Lock_global_def publish_order_def deliver_append concludes_def)
  qed
qed


lemma appended_empty: "appended h msg {} = h"
  by (simp add: appended_def fun_eq_iff)

lemma deliver_eq:
  assumes "distinct rs"
  shows "deliver room c msg rs m =
    (case find (stuck (heap m) msg) rs of
       None \<Rightarrow> Delivered (m\<lparr>heap := appended (heap m) msg (set rs)\<rparr>)
     | Some s \<Rightarrow>
         if owner (heap m s) = Some c
         then Queue_full
                (m\<lparr>heap := appended (heap m) msg (set (takeWhile (\<lambda>r. \<not> stuck (heap m) msg r) rs))\<rparr>)
         else (case room s
                 (m\<lparr>heap := appended (heap m) msg (set (takeWhile (\<lambda>r. \<not> stuck (heap m) msg r) rs))\<rparr>) of
                 None \<Rightarrow> Send_waits
                   (m\<lparr>heap := appended (heap m) msg (set (takeWhile (\<lambda>r. \<not> stuck (heap m) msg r) rs))\<rparr>)
               | Some m' \<Rightarrow>
                   if queue_full (heap m') s then Send_waits m'
                   else deliver room c msg (tl (dropWhile (\<lambda>r. \<not> stuck (heap m) msg r) rs))
                          (send s msg m')))"
  using assms
proof (induction rs arbitrary: m)
  case Nil
  then show ?case by (simp add: appended_empty)
next
  case (Cons a rs)
  show ?case
  proof (cases "wants (heap m) msg a")
    case False
    have "\<And>R. appended (heap m) msg (insert a R) = appended (heap m) msg R"
      using False by (auto simp: appended_def fun_eq_iff)
    then show ?thesis
      using False Cons.prems Cons.IH [of m]
      by (simp add: stuck_def wants_def split: option.split)
  next
    case True
    show ?thesis
    proof (cases "queue_full (heap m) a")
      case True
      with \<open>wants (heap m) msg a\<close> have st: "stuck (heap m) msg a" by (simp add: stuck_def)
      have lhs: "deliver room c msg (a # rs) m =
          (if owner (heap m a) = Some c then Queue_full m
           else (case room a m of
                   None \<Rightarrow> Send_waits m
                 | Some m' \<Rightarrow>
                     if queue_full (heap m') a then Send_waits m'
                     else deliver room c msg rs (send a msg m')))"
        using True \<open>wants (heap m) msg a\<close>
        by (simp add: wants_def queue_full_def not_less split: option.split)
      have same: "m\<lparr>heap := appended (heap m) msg (set [])\<rparr> = m"
        by (simp add: appended_empty)
      show ?thesis
        unfolding lhs using st by (simp add: same [simplified] split: option.split)
    next
      case False
      let ?m1 = "send a msg m"
      have same: "\<And>r. r \<in> set rs \<Longrightarrow> stuck (heap ?m1) msg r = stuck (heap m) msg r"
        using Cons.prems by (auto simp: stuck_def wants_def queue_full_def send_def)
      have f: "find (stuck (heap ?m1) msg) rs = find (stuck (heap m) msg) rs"
        using same by (intro find_cong) auto
      have t: "takeWhile (\<lambda>r. \<not> stuck (heap ?m1) msg r) rs
          = takeWhile (\<lambda>r. \<not> stuck (heap m) msg r) rs"
        using same by (intro takeWhile_cong) auto
      have dw: "dropWhile (\<lambda>r. \<not> stuck (heap ?m1) msg r) rs
          = dropWhile (\<lambda>r. \<not> stuck (heap m) msg r) rs"
        using same by (intro dropWhile_cong) auto
      have aph: "\<And>R. R \<subseteq> set rs \<Longrightarrow>
          appended ((heap m)(a := (heap m a)\<lparr>queue := queue (heap m a) @ [msg]\<rparr>)) msg R
            = appended (heap m) msg (insert a R)"
        using Cons.prems \<open>wants (heap m) msg a\<close>
        by (auto simp: appended_def wants_def fun_eq_iff)
      have ap: "\<And>R. R \<subseteq> set rs \<Longrightarrow>
          ?m1\<lparr>heap := appended (heap ?m1) msg R\<rparr> = m\<lparr>heap := appended (heap m) msg (insert a R)\<rparr>"
        by (simp add: send_def aph)
      have o: "\<And>r. owner (heap ?m1 r) = owner (heap m r)" by (simp add: send_def)
      have step: "deliver room c msg (a # rs) m = deliver room c msg rs ?m1"
        using \<open>wants (heap m) msg a\<close> False by (simp add: wants_def queue_full_def not_le)
      have ns: "\<not> stuck (heap m) msg a" using False by (simp add: stuck_def)
      have sub: "set (takeWhile (\<lambda>r. \<not> stuck (heap m) msg r) rs) \<subseteq> set rs"
        by (meson set_takeWhileD subsetI)
      have d: "distinct rs" using Cons.prems by simp
      have rhs: "(case find (stuck (heap m) msg) (a # rs) of
         None \<Rightarrow> Delivered (m\<lparr>heap := appended (heap m) msg (set (a # rs))\<rparr>)
       | Some s \<Rightarrow>
           if owner (heap m s) = Some c
           then Queue_full
                  (m\<lparr>heap := appended (heap m) msg
                     (set (takeWhile (\<lambda>r. \<not> stuck (heap m) msg r) (a # rs)))\<rparr>)
           else (case room s
                   (m\<lparr>heap := appended (heap m) msg
                      (set (takeWhile (\<lambda>r. \<not> stuck (heap m) msg r) (a # rs)))\<rparr>) of
                   None \<Rightarrow> Send_waits
                     (m\<lparr>heap := appended (heap m) msg
                        (set (takeWhile (\<lambda>r. \<not> stuck (heap m) msg r) (a # rs)))\<rparr>)
                 | Some m' \<Rightarrow>
                     if queue_full (heap m') s then Send_waits m'
                     else deliver room c msg (tl (dropWhile (\<lambda>r. \<not> stuck (heap m) msg r) (a # rs)))
                            (send s msg m'))) =
        (case find (stuck (heap m) msg) rs of
         None \<Rightarrow> Delivered (m\<lparr>heap := appended (heap m) msg (insert a (set rs))\<rparr>)
       | Some s \<Rightarrow>
           if owner (heap m s) = Some c
           then Queue_full
                  (m\<lparr>heap := appended (heap m) msg
                     (insert a (set (takeWhile (\<lambda>r. \<not> stuck (heap m) msg r) rs)))\<rparr>)
           else (case room s
                   (m\<lparr>heap := appended (heap m) msg
                      (insert a (set (takeWhile (\<lambda>r. \<not> stuck (heap m) msg r) rs)))\<rparr>) of
                   None \<Rightarrow> Send_waits
                     (m\<lparr>heap := appended (heap m) msg
                        (insert a (set (takeWhile (\<lambda>r. \<not> stuck (heap m) msg r) rs)))\<rparr>)
                 | Some m' \<Rightarrow>
                     if queue_full (heap m') s then Send_waits m'
                     else deliver room c msg (tl (dropWhile (\<lambda>r. \<not> stuck (heap m) msg r) rs))
                            (send s msg m')))"
        using ns by (simp split: option.split)
      show ?thesis
        unfolding step rhs Cons.IH [OF d, of ?m1] f t dw o ap [OF sub] ap [OF subset_refl] ..
    qed
  qed
qed


lemma Publish_error:
  assumes "Publish room tkeys skeys client msg m = Returns (Some e) m'"
  shows "e = ErrQueueFull \<and>
    (\<exists>r. owner (heap m' r) = Some (addr client) \<and> wants (heap m') msg r \<and> queue_full (heap m') r)"
proof -
  from assms obtain rs m0 m1 where d: "deliver room (addr client) msg rs m0 = Queue_full m1"
    and r: "unlock_return (Some ErrQueueFull) m1 = Returns (Some e) m'"
    by (auto simp: Publish_def unlock_return_def split: option.splits delivery.splits if_splits)
  from r have "e = ErrQueueFull" "heap m' = heap m1"
    by (auto simp: unlock_return_def split: if_splits)
  with deliver_Queue_full [OF d] show ?thesis by auto
qed

text \<open>
  Claim C2. A call of \<^verbatim>\<open>Publish\<close> waits while the global mutex is held. Otherwise,
  where every session lies under one key only and the goroutines that run while a send
  waits leave the stored-session map alone (it is written under the global mutex only,
  which the call holds), its two loops visit the temporary and then the stored
  sessions, in the order Go ranges over the maps, and append the message to the queue
  of each visited session that holds a matching subscription, up to the first such
  session whose queue is full. If there is
  none, the call returns \<^verbatim>\<open>nil\<close>, the message is in the queue of every session with a
  matching subscription and nothing else has changed. If that session is owned by the
  publishing client, the call returns \<^verbatim>\<open>ErrQueueFull\<close> at once, from inside the loop: the
  sessions not yet visited do not get the message, whatever they subscribe to, where the
  claim has every session with a matching subscription get it. If that session is owned
  by another client or by none, the send waits, holding the global mutex: for ever when
  the queue never gets room, and otherwise the message is appended and the loops go on
  with the remaining sessions in the same way. An error returned is always
  \<^verbatim>\<open>ErrQueueFull\<close> and comes from a full queue of a session of the publishing client.
\<close>

theorem Publish_result:
  "(globalMutex m \<longrightarrow> Publish room tkeys skeys client msg m = Blocks m) \<and>
   (\<not> globalMutex m \<and> (\<forall>r a b. room r a = Some b \<longrightarrow> storedSessions b = storedSessions a) \<and>
    distinct (publish_order tkeys skeys m) \<longrightarrow>
      Publish room tkeys skeys client msg m =
        (case find (stuck (heap m) msg) (publish_order tkeys skeys m) of
           None \<Rightarrow>
             Returns None (m\<lparr>heap := appended (heap m) msg (set (publish_order tkeys skeys m))\<rparr>)
         | Some s \<Rightarrow>
             if owner (heap m s) = Some (addr client)
             then Returns (Some ErrQueueFull)
                    (m\<lparr>heap := appended (heap m) msg
                       (set (takeWhile (\<lambda>r. \<not> stuck (heap m) msg r) (publish_order tkeys skeys m)))\<rparr>)
             else (case room s
                     (m\<lparr>globalMutex := True, heap := appended (heap m) msg
                        (set (takeWhile (\<lambda>r. \<not> stuck (heap m) msg r) (publish_order tkeys skeys m)))\<rparr>) of
                     None \<Rightarrow> Blocks
                       (m\<lparr>globalMutex := True, heap := appended (heap m) msg
                          (set (takeWhile (\<lambda>r. \<not> stuck (heap m) msg r) (publish_order tkeys skeys m)))\<rparr>)
                   | Some m' \<Rightarrow>
                       if queue_full (heap m') s then Blocks m'
                       else concludes (deliver room (addr client) msg
                              (tl (dropWhile (\<lambda>r. \<not> stuck (heap m) msg r) (publish_order tkeys skeys m)))
                              (send s msg m'))))) \<and>
   (distinct rs \<longrightarrow>
      deliver room c msg rs m =
        (case find (stuck (heap m) msg) rs of
           None \<Rightarrow> Delivered (m\<lparr>heap := appended (heap m) msg (set rs)\<rparr>)
         | Some s \<Rightarrow>
             if owner (heap m s) = Some c
             then Queue_full
                    (m\<lparr>heap := appended (heap m) msg (set (takeWhile (\<lambda>r. \<not> stuck (heap m) msg r) rs))\<rparr>)
             else (case room s
                     (m\<lparr>heap := appended (heap m) msg (set (takeWhile (\<lambda>r. \<not> stuck (heap m) msg r) rs))\<rparr>) of
                     None \<Rightarrow> Send_waits
                       (m\<lparr>heap := appended (heap m) msg (set (takeWhile (\<lambda>r. \<not> stuck (heap m) msg r) rs))\<rparr>)
                   | Some m' \<Rightarrow>
                       if queue_full (heap m') s then Send_waits m'
                       else deliver room c msg (tl (dropWhile (\<lambda>r. \<not> stuck (heap m) msg r) rs))
                              (send s msg m')))) \<and>
   (\<forall>e m'. Publish room tkeys skeys client msg m = Returns (Some e) m' \<longrightarrow>
      e = ErrQueueFull \<and>
      (\<exists>r. owner (heap m' r) = Some (addr client) \<and> wants (heap m') msg r \<and>
           queue_full (heap m') r)) \<and>
   (set tkeys = dom (temporarySessions m) \<and> set skeys = dom (storedSessions m) \<longrightarrow>
      set (publish_order tkeys skeys m) = ran (temporarySessions m) \<union> ran (storedSessions m))"
proof (intro conjI impI allI)
  assume "globalMutex m"
  then show "Publish room tkeys skeys client msg m = Blocks m"
    by (simp add: Publish_def Lock_global_def)
next
  assume a: "\<not> globalMutex m \<and>
    (\<forall>r a b. room r a = Some b \<longrightarrow> storedSessions b = storedSessions a) \<and>
    distinct (publish_order tkeys skeys m)"
  then have free: "\<not> globalMutex m"
    and maps: "\<forall>r a b. room r a = Some b \<longrightarrow> storedSessions b = storedSessions a"
    and dist: "distinct (publish_order tkeys skeys m)" by blast+
  show "Publish room tkeys skeys client msg m =
        (case find (stuck (heap m) msg) (publish_order tkeys skeys m) of
           None \<Rightarrow>
             Returns None (m\<lparr>heap := appended (heap m) msg (set (publish_order tkeys skeys m))\<rparr>)
         | Some s \<Rightarrow>
             if owner (heap m s) = Some (addr client)
             then Returns (Some ErrQueueFull)
                    (m\<lparr>heap := appended (heap m) msg
                       (set (takeWhile (\<lambda>r. \<not> stuck (heap m) msg r) (publish_order tkeys skeys m)))\<rparr>)
             else (case room s
                     (m\<lparr>globalMutex := True, heap := appended (heap m) msg
                        (set (takeWhile (\<lambda>r. \<not> stuck (heap m) msg r) (publish_order tkeys skeys m)))\<rparr>) of
                     None \<Rightarrow> Blocks
                       (m\<lparr>globalMutex := True, heap := appended (heap m) msg
                          (set (takeWhile (\<lambda>r. \<not> stuck (heap m) msg r) (publish_order tkeys skeys m)))\<rparr>)
                   | Some m' \<Rightarrow>
                       if queue_full (heap m') s then Blocks m'
                       else concludes (deliver room (addr client) msg
                              (tl (dropWhile (\<lambda>r. \<not> stuck (heap m) msg r) (publish_order tkeys skeys m)))
                              (send s msg m'))))"
    unfolding Publish_loops [OF free maps] deliver_eq [OF dist]
    using free by (simp add: concludes_def unlock_return_def split: option.split)
next
  assume "distinct rs"
  then show "deliver room c msg rs m =
        (case find (stuck (heap m) msg) rs of
           None \<Rightarrow> Delivered (m\<lparr>heap := appended (heap m) msg (set rs)\<rparr>)
         | Some s \<Rightarrow>
             if owner (heap m s) = Some c
             then Queue_full
                    (m\<lparr>heap := appended (heap m) msg (set (takeWhile (\<lambda>r. \<not> stuck (heap m) msg r) rs))\<rparr>)
             else (case room s
                     (m\<lparr>heap := appended (heap m) msg (set (takeWhile (\<lambda>r. \<not> stuck (heap m) msg r) rs))\<rparr>) of
                     None \<Rightarrow> Send_waits
                       (m\<lparr>heap := appended (heap m) msg (set (takeWhile (\<lambda>r. \<not> stuck (heap m) msg r) rs))\<rparr>)
                   | Some m' \<Rightarrow>
                       if queue_full (heap m') s then Send_waits m'
                       else deliver room c msg (tl (dropWhile (\<lambda>r. \<not> stuck (heap m) msg r) rs))
                              (send s msg m')))"
    by (rule deliver_eq)
next
  fix e m'
  assume p: "Publish room tkeys skeys client msg m = Returns (Some e) m'"
  from Publish_error [OF p] show "e = ErrQueueFull" by blast
  from Publish_error [OF p]
  show "\<exists>r. owner (heap m' r) = Some (addr client) \<and> wants (heap m') msg r \<and> queue_full (heap m') r"
    by blast
next
  assume "set tkeys = dom (temporarySessions m) \<and> set skeys = dom (storedSessions m)"
  then show "set (publish_order tkeys skeys m) = ran (temporarySessions m) \<union> ran (storedSessions m)"
    by (simp add: publish_order_def set_values_in_dom)
qed


lemma subscribed_lookup:
  "LookupSubscription (subscribed_session q) (Topic news) = Some \<lparr>Filter = ''t'', MaxQOS = 0\<rparr>"
  "LookupSubscription ((subscribed_session q)\<lparr>owner := holder\<rparr>) (Topic news)
     = Some \<lparr>Filter = ''t'', MaxQOS = 0\<rparr>"
  by (simp_all add: subscribed_session_def news_def
      LookupSubscription_def Tree_Search_def Tree_Set_def hidden_topic_def child_def NewTree_def)

lemma node_search_NewTree: "node_search ls NewTree = []"
  by (cases ls) (simp_all add: NewTree_def child_def)

lemma zero_lookup: "LookupSubscription zero_session topic = None"
  by (simp add: LookupSubscription_def Tree_Search_def zero_session_def node_search_NewTree Let_def)
    (simp add: NewTree_def)

lemma two_subscribers_heap:
  "heap (two_subscribers q1 q2) 0 = subscribed_session q1"
  "heap (two_subscribers q1 q2) (Suc 0) = (subscribed_session q2)\<lparr>owner := Some 2\<rparr>"
  by (simp_all add: two_subscribers_def)

lemma two_subscribers_order:
  "publish_order [] [''c1'', ''c2''] (two_subscribers q1 q2) = [0, Suc 0]"
  "publish_order [] [''c2'', ''c1''] (two_subscribers q1 q2) = [Suc 0, 0]"
  by (simp_all add: publish_order_def values_in_def two_subscribers_def NewMemoryBackend_def)

lemma two_subscribers_stuck:
  "stuck (heap (two_subscribers q1 q2)) news 0 \<longleftrightarrow> 1 \<le> length q1"
  "stuck (heap (two_subscribers q1 q2)) news (Suc 0) \<longleftrightarrow> 1 \<le> length q2"
  by (simp_all add: stuck_def wants_def queue_full_def two_subscribers_heap subscribed_lookup)
    (simp_all add: subscribed_session_def)

lemma two_subscribers_appended:
  "(two_subscribers q1 q2)\<lparr>heap := appended (heap (two_subscribers q1 q2)) news R\<rparr> =
     two_subscribers (if 0 \<in> R then q1 @ [news] else q1) (if Suc 0 \<in> R then q2 @ [news] else q2)"
proof -
  have "appended (heap (two_subscribers q1 q2)) news R =
      heap (two_subscribers (if 0 \<in> R then q1 @ [news] else q1) (if Suc 0 \<in> R then q2 @ [news] else q2))"
  proof
    fix r
    show "appended (heap (two_subscribers q1 q2)) news R r =
      heap (two_subscribers (if 0 \<in> R then q1 @ [news] else q1)
        (if Suc 0 \<in> R then q2 @ [news] else q2)) r"
    proof (cases "r = 0 \<or> r = Suc 0")
      case True
      then show ?thesis
        by (auto simp: appended_def wants_def two_subscribers_heap subscribed_lookup)
          (simp_all add: subscribed_session_def)
    next
      case False
      then have "heap (two_subscribers a b) r = zero_session" for a b
        by (simp add: two_subscribers_def)
      then show ?thesis
        by (simp add: appended_def wants_def zero_lookup)
    qed
  qed
  then show ?thesis by (simp add: two_subscribers_def)
qed


theorem Publish_result_witness:
  "Publish never_room [] [''c1'', ''c2''] sample_client news (two_subscribers [news] []) =
     Returns (Some ErrQueueFull) (two_subscribers [news] []) \<and>
   Publish never_room [] [''c2'', ''c1''] sample_client news (two_subscribers [news] []) =
     Returns (Some ErrQueueFull) (two_subscribers [news] [news]) \<and>
   Publish never_room [] [''c1'', ''c2''] sample_client news (two_subscribers [] []) =
     Returns None (two_subscribers [news] [news]) \<and>
   Publish never_room [] [''c1'', ''c2''] other_client news (two_subscribers [news] []) =
     Blocks ((two_subscribers [news] [])\<lparr>globalMutex := True\<rparr>) \<and>
   Publish taken_off [] [''c1'', ''c2''] other_client news (two_subscribers [news] []) =
     Returns None (two_subscribers [news] [news])"
proof -
  let ?full = "two_subscribers [news] []"
  have own: "owner (heap (two_subscribers q1 q2) 0) = Some 1"
    "addr sample_client = 1" "addr other_client = 2" for q1 q2
    by (simp_all add: two_subscribers_heap subscribed_session_def sample_client_def other_client_def)
  have pre: "\<not> globalMutex (two_subscribers q1 q2) \<and>
      (\<forall>r a b. never_room r a = Some b \<longrightarrow> storedSessions b = storedSessions a) \<and>
      distinct (publish_order [] [''c1'', ''c2''] (two_subscribers q1 q2))"
    "\<not> globalMutex (two_subscribers q1 q2) \<and>
      (\<forall>r a b. never_room r a = Some b \<longrightarrow> storedSessions b = storedSessions a) \<and>
      distinct (publish_order [] [''c2'', ''c1''] (two_subscribers q1 q2))"
    "\<not> globalMutex (two_subscribers q1 q2) \<and>
      (\<forall>r a b. taken_off r a = Some b \<longrightarrow> storedSessions b = storedSessions a) \<and>
      distinct (publish_order [] [''c1'', ''c2''] (two_subscribers q1 q2))" for q1 q2
    by (auto simp: two_subscribers_order never_room_def taken_off_def)
      (simp_all add: two_subscribers_def NewMemoryBackend_def)
  have w1: "Publish never_room [] [''c1'', ''c2''] sample_client news ?full =
      Returns (Some ErrQueueFull) ?full"
    using Publish_result [where m = ?full and room = never_room and tkeys = "[]"
        and skeys = "[''c1'', ''c2'']" and client = sample_client and msg = news,
        THEN conjunct2, THEN conjunct1, THEN mp, OF pre(1)]
      two_subscribers_appended [of "[news]" "[]" "{}"]
    by (simp add: two_subscribers_order two_subscribers_stuck own)
  have w2: "Publish never_room [] [''c2'', ''c1''] sample_client news ?full =
      Returns (Some ErrQueueFull) (two_subscribers [news] [news])"
    using Publish_result [where m = ?full and room = never_room and tkeys = "[]"
        and skeys = "[''c2'', ''c1'']" and client = sample_client and msg = news,
        THEN conjunct2, THEN conjunct1, THEN mp, OF pre(2)]
      two_subscribers_appended [of "[news]" "[]" "{Suc 0}"]
    by (simp add: two_subscribers_order two_subscribers_stuck own)
  have w3: "Publish never_room [] [''c1'', ''c2''] sample_client news (two_subscribers [] []) =
      Returns None (two_subscribers [news] [news])"
    using Publish_result [where m = "two_subscribers [] []" and room = never_room and tkeys = "[]"
        and skeys = "[''c1'', ''c2'']" and client = sample_client and msg = news,
        THEN conjunct2, THEN conjunct1, THEN mp, OF pre(1)]
      two_subscribers_appended [of "[]" "[]" "{0, Suc 0}"]
    by (simp add: two_subscribers_order two_subscribers_stuck)
  have w4: "Publish never_room [] [''c1'', ''c2''] other_client news ?full =
      Blocks (?full\<lparr>globalMutex := True\<rparr>)"
    using Publish_result [where m = ?full and room = never_room and tkeys = "[]"
        and skeys = "[''c1'', ''c2'']" and client = other_client and msg = news,
        THEN conjunct2, THEN conjunct1, THEN mp, OF pre(1)]
    by (simp add: two_subscribers_order two_subscribers_stuck own appended_empty never_room_def)
  let ?m' = "(two_subscribers [] [])\<lparr>globalMutex := True\<rparr>"
  have t: "taken_off 0 (?full\<lparr>globalMutex := True\<rparr>) = Some ?m'"
    by (simp add: taken_off_def two_subscribers_def subscribed_session_def fun_eq_iff)
  have nf: "\<not> queue_full (heap (two_subscribers [] [])) 0"
    by (simp add: queue_full_def two_subscribers_heap subscribed_session_def)
  have s0: "send 0 news ?m' = ?full\<lparr>globalMutex := True\<rparr>"
    by (simp add: send_def two_subscribers_def subscribed_session_def fun_eq_iff)
  have s1: "send (Suc 0) news (?full\<lparr>globalMutex := True\<rparr>)
      = (two_subscribers [news] [news])\<lparr>globalMutex := True\<rparr>"
    by (simp add: send_def two_subscribers_def subscribed_session_def fun_eq_iff)
  have o1: "owner (heap ?full (Suc 0)) = Some (addr other_client)"
    "length (queue (heap ?full (Suc 0))) < capacity (heap ?full (Suc 0))"
    by (simp_all add: two_subscribers_heap subscribed_session_def other_client_def)
  have l1: "LookupSubscription (heap ?full (Suc 0)) (Topic news) \<noteq> None"
    by (simp add: two_subscribers_heap subscribed_lookup)
  have d1: "deliver taken_off (addr other_client) news [Suc 0] (?full\<lparr>globalMutex := True\<rparr>)
      = Delivered ((two_subscribers [news] [news])\<lparr>globalMutex := True\<rparr>)"
    using o1 l1 by (simp add: s1)
  have g: "(two_subscribers [news] [news])\<lparr>globalMutex := True, globalMutex := False\<rparr>
      = two_subscribers [news] [news]"
    by (simp add: two_subscribers_def NewMemoryBackend_def)
  have rest: "concludes (deliver taken_off (addr other_client) news [Suc 0]
      (?full\<lparr>globalMutex := True\<rparr>)) = Returns None (two_subscribers [news] [news])"
    unfolding d1 by (simp add: concludes_def unlock_return_def g)
  have ne: "Suc 0 \<noteq> addr other_client"
    by (simp add: other_client_def)
  have w5: "Publish taken_off [] [''c1'', ''c2''] other_client news ?full =
      Returns None (two_subscribers [news] [news])"
    using Publish_result [where m = ?full and room = taken_off and tkeys = "[]"
        and skeys = "[''c1'', ''c2'']" and client = other_client and msg = news,
        THEN conjunct2, THEN conjunct1, THEN mp, OF pre(3)]
    by (simp add: two_subscribers_order two_subscribers_stuck own(1) ne appended_empty t nf s0 rest
        del: deliver.simps)
  show ?thesis using w1 w2 w3 w4 w5 by blast
qed

subsection \<open>Setup\<close>

lemma setup_session_Inl: "setup_session client cid m \<noteq> Returns (Inl e) m'"
  by (auto simp: setup_session_def setup_return_def newMemorySession_def alloc_def Let_def
      split: option.splits if_splits)

lemma setup_session_clean:
  assumes "setup_session client cid m = Returns (Inr (sess, resumed)) m'" "CleanSession client"
  shows "\<not> resumed \<and> sess = next_ref m \<and>
    storedSessions m' = (storedSessions m)(cid := None) \<and>
    temporarySessions m' = (temporarySessions m)(addr client \<mapsto> sess) \<and>
    activeClients m' = (activeClients m)(cid \<mapsto> addr client) \<and>
    heap m' = (heap m)(sess := new_session m client) \<and> next_ref m' = Suc (next_ref m) \<and>
    \<not> globalMutex m' \<and> \<not> setupMutex m' \<and> closing m' = closing m \<and>
    SessionQueueSize m' = SessionQueueSize m"
  using assms
  by (auto simp: setup_session_def setup_return_def newMemorySession_def alloc_def Let_def
      new_session_def split: option.splits if_splits)

lemma setup_session_resume:
  assumes "setup_session client cid m = Returns (Inr (sess, resumed)) m'" "\<not> CleanSession client"
    "storedSessions m cid = Some r"
  shows "resumed \<and> sess = r \<and>
    storedSessions m' = storedSessions m \<and>
    temporarySessions m' = temporarySessions m \<and>
    activeClients m' = (activeClients m)(cid \<mapsto> addr client) \<and>
    heap m' = (heap m)(r := (heap m r)\<lparr>owner := Some (addr client), kill_ch := Open, done_ch := Open\<rparr>) \<and>
    next_ref m' = next_ref m \<and>
    \<not> globalMutex m' \<and> \<not> setupMutex m' \<and> closing m' = closing m \<and>
    SessionQueueSize m' = SessionQueueSize m"
  using assms
  by (auto simp: setup_session_def setup_return_def reuse_def Let_def
      split: option.splits if_splits)

lemma setup_session_create:
  assumes "setup_session client cid m = Returns (Inr (sess, resumed)) m'" "\<not> CleanSession client"
    "storedSessions m cid = None"
  shows "\<not> resumed \<and> sess = next_ref m \<and>
    storedSessions m' = (storedSessions m)(cid \<mapsto> sess) \<and>
    temporarySessions m' = temporarySessions m \<and>
    activeClients m' = (activeClients m)(cid \<mapsto> addr client) \<and>
    heap m' = (heap m)(sess := new_session m client) \<and> next_ref m' = Suc (next_ref m) \<and>
    \<not> globalMutex m' \<and> \<not> setupMutex m' \<and> closing m' = closing m \<and>
    SessionQueueSize m' = SessionQueueSize m"
  using assms
  by (auto simp: setup_session_def setup_return_def newMemorySession_def alloc_def Let_def
      new_session_def split: option.splits if_splits)

lemma existing_session_mutex:
  "existing_session (m\<lparr>globalMutex := a, setupMutex := b\<rparr>) cid = existing_session m cid"
  by (simp add: existing_session_def split: option.split)

lemma Setup_empty_id:
  assumes "Setup env client [] m = Returns (Inr (sess, resumed)) m'"
  shows "\<not> resumed \<and> sess = next_ref m \<and>
    storedSessions m' = storedSessions m \<and>
    temporarySessions m' = (temporarySessions m)(addr client \<mapsto> sess) \<and>
    activeClients m' = activeClients m \<and>
    heap m' = (heap m)(sess := new_session m client) \<and> next_ref m' = Suc (next_ref m) \<and>
    \<not> globalMutex m \<and> \<not> setupMutex m \<and> \<not> closing m \<and>
    \<not> globalMutex m' \<and> \<not> setupMutex m' \<and> closing m' = closing m \<and>
    SessionQueueSize m' = SessionQueueSize m"
  using assms
  by (auto simp: Setup_def Lock_global_def Lock_setup_def setup_return_def newMemorySession_def
      alloc_def Let_def new_session_def split: option.splits if_splits)

lemma Setup_named:
  assumes "Setup env client cid m = Returns (Inr (sess, resumed)) m'" "cid \<noteq> []"
  shows "\<not> globalMutex m \<and> \<not> setupMutex m \<and> \<not> closing m \<and>
    (if takes_over m cid
     then (\<exists>m3. env (killed m cid) = Done_fired m3 \<and> \<not> globalMutex m3 \<and>
             setup_session client cid (m3\<lparr>globalMutex := True\<rparr>) = Returns (Inr (sess, resumed)) m')
     else setup_session client cid (locked m) = Returns (Inr (sess, resumed)) m')"
  using assms
  by (auto simp: Setup_def Lock_global_def Lock_setup_def kill_and_wait_def takes_over_def
      locked_def killed_def setup_return_def Let_def existing_session_mutex
      split: option.splits if_splits wait.splits)

lemma setup_session_returns:
  assumes "globalMutex mw" "setupMutex mw" "0 \<le> SessionQueueSize mw"
  shows "\<exists>sess m'. setup_session client cid mw =
     Returns (Inr (sess, \<not> CleanSession client \<and> storedSessions mw cid \<noteq> None)) m'"
  using assms
  by (auto simp: setup_session_def setup_return_def newMemorySession_def alloc_def Let_def
      split: option.splits)

lemma Setup_second_half:
  assumes free: "\<not> globalMutex m" "\<not> setupMutex m"
    and nc: "\<not> closing m" "cid \<noteq> []"
    and takeover: "takes_over m cid \<longrightarrow>
        (\<forall>s. existing_session m cid = Some s \<longrightarrow> kill_ch (heap m s) = Open) \<and>
        (\<exists>m3. env (killed m cid) = Done_fired m3 \<and> \<not> globalMutex m3)"
  shows "Setup env client cid m = setup_session client cid (after_wait env m cid)"
proof (cases "takes_over m cid")
  case False
  then show ?thesis
    using free nc
    by (auto simp: Setup_def Lock_global_def Lock_setup_def takes_over_def after_wait_def
        locked_def existing_session_mutex split: option.splits)
next
  case True
  with takeover obtain m3 where m3: "env (killed m cid) = Done_fired m3" "\<not> globalMutex m3"
    and op: "\<forall>s. existing_session m cid = Some s \<longrightarrow> kill_ch (heap m s) = Open" by blast
  from True obtain s where s: "existing_session m cid = Some s" "owner (heap m s) \<noteq> None"
    by (auto simp: takes_over_def split: option.splits)
  with op have k: "kill_ch (heap m s) = Open" by blast
  have kd: "killed m cid = (locked m)\<lparr>heap := (heap m)(s := (heap m s)\<lparr>kill_ch := Closed\<rparr>),
      globalMutex := False\<rparr>"
    using s by (simp add: killed_def)
  show ?thesis
    using free nc True s k m3 m3(1) [unfolded kd]
    by (simp add: Setup_def Lock_global_def Lock_setup_def kill_and_wait_def after_wait_def
        locked_def existing_session_mutex Let_def wait_backend_def kd)
qed


lemma after_wait_empty: "after_wait env m [] = locked m"
  by (simp add: after_wait_def)

text \<open>
  Claim C1, as amended. Take a call of \<^verbatim>\<open>Setup\<close> made with both mutexes free on a
  backend that is not closing, where \<^verbatim>\<open>SessionQueueSize\<close> is not negative when the second
  half of the call runs, and where, if an existing session for the id has an owner,
  its kill channel is still open and its done channel fires before \<^verbatim>\<open>KillTimeout\<close>, the
  other goroutines leaving the global mutex free, the setup mutex held by the call and
  the stored-session map as it was. The call returns a session and no error. With an
  empty id the session is a new one, recorded for the client in the temporary-session
  map, the stored sessions are unchanged and resumed is false. With a non-empty id and
  clean-session, the stored session of the id is deleted, the session is a new one
  recorded in the temporary-session map, and resumed is false. With a non-empty id, no
  clean-session and a stored session for the id, that session is returned with resumed
  true, owned by the client and with fresh kill and done channels. Otherwise the
  session is a new one, recorded in the stored-session map under the id, and resumed is
  false. So resumed is true exactly when the id is non-empty, clean-session is false
  and a stored session for the id existed.
\<close>

theorem Setup_result:
  assumes free: "\<not> globalMutex m" "\<not> setupMutex m"
    and nc: "\<not> closing m"
    and size: "0 \<le> SessionQueueSize (after_wait env m cid)"
    and takeover: "cid \<noteq> [] \<and> takes_over m cid \<longrightarrow>
        (\<forall>s. existing_session m cid = Some s \<longrightarrow> kill_ch (heap m s) = Open) \<and>
        (\<exists>m3. env (killed m cid) = Done_fired m3 \<and> \<not> globalMutex m3 \<and> setupMutex m3 \<and>
              storedSessions m3 = storedSessions m)"
  shows "\<exists>sess m'.
    Setup env client cid m =
      Returns (Inr (sess, cid \<noteq> [] \<and> \<not> CleanSession client \<and> storedSessions m cid \<noteq> None)) m' \<and>
    (cid = [] \<longrightarrow>
       sess = next_ref m \<and> heap m' sess = new_session m' client \<and>
       temporarySessions m' (addr client) = Some sess \<and>
       storedSessions m' = storedSessions m \<and> activeClients m' = activeClients m) \<and>
    (cid \<noteq> [] \<and> CleanSession client \<longrightarrow>
       sess = next_ref (after_wait env m cid) \<and> heap m' sess = new_session m' client \<and>
       temporarySessions m' (addr client) = Some sess \<and>
       storedSessions m' = (storedSessions m)(cid := None)) \<and>
    (\<forall>r. cid \<noteq> [] \<and> \<not> CleanSession client \<and> storedSessions m cid = Some r \<longrightarrow>
       sess = r \<and>
       heap m' r = (heap (after_wait env m cid) r)
         \<lparr>owner := Some (addr client), kill_ch := Open, done_ch := Open\<rparr> \<and>
       storedSessions m' = storedSessions m) \<and>
    (cid \<noteq> [] \<and> \<not> CleanSession client \<and> storedSessions m cid = None \<longrightarrow>
       sess = next_ref (after_wait env m cid) \<and> heap m' sess = new_session m' client \<and>
       storedSessions m' = (storedSessions m)(cid \<mapsto> sess)) \<and>
    (cid \<noteq> [] \<longrightarrow> activeClients m' cid = Some (addr client)) \<and>
    heap m' = (heap (after_wait env m cid))(sess := heap m' sess) \<and>
    \<not> globalMutex m' \<and> \<not> setupMutex m'"
proof (cases "cid = []")
  case True
  let ?m' = "m\<lparr>heap := (heap m)(next_ref m := new_session m client),
      next_ref := Suc (next_ref m),
      temporarySessions := (temporarySessions m)(addr client \<mapsto> next_ref m)\<rparr>"
  from size True have sz: "0 \<le> SessionQueueSize m"
    by (simp add: after_wait_empty locked_def)
  have "Setup env client [] m = Returns (Inr (next_ref m, False)) ?m'"
    using free nc sz
    by (simp add: Setup_def Lock_global_def Lock_setup_def setup_return_def newMemorySession_def
        alloc_def Let_def new_session_def)
  then show ?thesis
    using True free nc
    by (intro exI [of _ "next_ref m"] exI [of _ ?m'])
      (simp add: new_session_def after_wait_empty locked_def)
next
  case False
  let ?mw = "after_wait env m cid"
  have tk: "takes_over m cid \<longrightarrow>
        (\<forall>s. existing_session m cid = Some s \<longrightarrow> kill_ch (heap m s) = Open) \<and>
        (\<exists>m3. env (killed m cid) = Done_fired m3 \<and> \<not> globalMutex m3)"
    using takeover False by blast
  have half: "Setup env client cid m = setup_session client cid ?mw"
    using free nc False tk by (rule Setup_second_half)
  have held: "globalMutex ?mw" "setupMutex ?mw" and st: "storedSessions ?mw = storedSessions m"
    using takeover False
    by (auto simp: after_wait_def locked_def wait_backend_def)
  from setup_session_returns [OF held size, of client cid] obtain sess m' where
    ss: "setup_session client cid ?mw =
      Returns (Inr (sess, \<not> CleanSession client \<and> storedSessions ?mw cid \<noteq> None)) m'"
    by blast
  have props: "(CleanSession client \<longrightarrow>
       sess = next_ref ?mw \<and> heap m' sess = new_session m' client \<and>
       temporarySessions m' (addr client) = Some sess \<and>
       storedSessions m' = (storedSessions m)(cid := None)) \<and>
    (\<forall>r. \<not> CleanSession client \<and> storedSessions m cid = Some r \<longrightarrow>
       sess = r \<and>
       heap m' r = (heap ?mw r)\<lparr>owner := Some (addr client), kill_ch := Open, done_ch := Open\<rparr> \<and>
       storedSessions m' = storedSessions m) \<and>
    (\<not> CleanSession client \<and> storedSessions m cid = None \<longrightarrow>
       sess = next_ref ?mw \<and> heap m' sess = new_session m' client \<and>
       storedSessions m' = (storedSessions m)(cid \<mapsto> sess)) \<and>
    activeClients m' cid = Some (addr client) \<and>
    heap m' = (heap ?mw)(sess := heap m' sess) \<and>
    \<not> globalMutex m' \<and> \<not> setupMutex m'"
  proof (cases "CleanSession client")
    case True
    from setup_session_clean [OF ss True] show ?thesis
      using True st by (simp add: new_session_def)
  next
    case nclean: False
    show ?thesis
    proof (cases "storedSessions m cid")
      case None
      then have "storedSessions ?mw cid = None" using st by simp
      from setup_session_create [OF ss nclean this] show ?thesis
        using nclean st None by (simp add: new_session_def)
    next
      case (Some r)
      then have "storedSessions ?mw cid = Some r" using st by simp
      from setup_session_resume [OF ss nclean this] show ?thesis
        using nclean st Some by simp
    qed
  qed
  have run: "Setup env client cid m =
      Returns (Inr (sess, cid \<noteq> [] \<and> \<not> CleanSession client \<and> storedSessions m cid \<noteq> None)) m'"
    using half ss st False by simp
  show ?thesis
    by (rule exI [of _ sess], rule exI [of _ m']) (use run props False in blast)
qed


theorem Setup_result_witness:
  "Setup (terminates sample_client) second_client ''c1'' durable_backend =
     Returns (Inr (0, True))
       (durable_backend\<lparr>activeClients := [''c1'' \<mapsto> 2],
          heap := (\<lambda>r. zero_session)(0 := durable_session (Some 2))\<rparr>) \<and>
   owner (heap (durable_backend\<lparr>activeClients := [''c1'' \<mapsto> 2],
          heap := (\<lambda>r. zero_session)(0 := durable_session (Some 2))\<rparr>) 0) = Some (addr second_client) \<and>
   \<not> setupMutex (durable_backend\<lparr>activeClients := [''c1'' \<mapsto> 2],
          heap := (\<lambda>r. zero_session)(0 := durable_session (Some 2))\<rparr>)"
proof -
  let ?m' = "durable_backend\<lparr>activeClients := [''c1'' \<mapsto> 2],
          heap := (\<lambda>r. zero_session)(0 := durable_session (Some 2))\<rparr>"
  have run: "Setup (terminates sample_client) second_client ''c1'' durable_backend =
      Returns (Inr (0, True)) ?m'"
    by (simp add: Setup_def Lock_global_def Lock_setup_def existing_session_def kill_and_wait_def
        setup_session_def setup_return_def reuse_def Let_def terminates_def
        Terminate_def unlock_return_def
        durable_backend_def NewMemoryBackend_def second_client_def sample_client_def
        durable_session_def fun_eq_iff)
  have free: "\<not> globalMutex durable_backend" "\<not> setupMutex durable_backend"
    and nc: "\<not> closing durable_backend"
    by (simp_all add: durable_backend_def NewMemoryBackend_def)
  have ex: "existing_session durable_backend ''c1'' = Some 0"
    by (simp add: existing_session_def durable_backend_def NewMemoryBackend_def)
  have h0: "heap durable_backend 0 = durable_session (Some 1)"
    by (simp add: durable_backend_def durable_session_def)
  have tk: "takes_over durable_backend ''c1''"
    by (simp add: takes_over_def ex h0 durable_session_def)
  have k: "killed durable_backend ''c1'' =
      (locked durable_backend)\<lparr>heap := (heap durable_backend)
         (0 := (durable_session (Some 1))\<lparr>kill_ch := Closed\<rparr>), globalMutex := False\<rparr>"
    by (simp add: killed_def ex h0)
  have w: "terminates sample_client (killed durable_backend ''c1'') =
      Done_fired ((locked durable_backend)\<lparr>
        heap := (heap durable_backend)(0 := (durable_session None)\<lparr>kill_ch := Closed, done_ch := Closed\<rparr>),
        temporarySessions := (temporarySessions durable_backend)(1 := None),
        activeClients := (activeClients durable_backend)(''c1'' := None),
        globalMutex := False\<rparr>)"
    by (simp add: k terminates_def Terminate_def Lock_global_def unlock_return_def Let_def
        locked_def sample_client_def durable_session_def fun_eq_iff)
  have aw: "SessionQueueSize (after_wait (terminates sample_client) durable_backend ''c1'')
      = SessionQueueSize durable_backend"
    by (simp add: after_wait_def tk w wait_backend_def locked_def)
  have size: "0 \<le> SessionQueueSize (after_wait (terminates sample_client) durable_backend ''c1'')"
    unfolding aw by (simp add: durable_backend_def NewMemoryBackend_def)
  have takeover: "''c1'' \<noteq> [] \<and> takes_over durable_backend ''c1'' \<longrightarrow>
      (\<forall>s. existing_session durable_backend ''c1'' = Some s \<longrightarrow> kill_ch (heap durable_backend s) = Open) \<and>
      (\<exists>m3. terminates sample_client (killed durable_backend ''c1'') = Done_fired m3 \<and>
         \<not> globalMutex m3 \<and> setupMutex m3 \<and> storedSessions m3 = storedSessions durable_backend)"
    by (simp add: ex h0 w durable_session_def locked_def)
  from Setup_result [where env = "terminates sample_client" and client = second_client,
      OF free nc size takeover]
  obtain sess m' where
    r: "Setup (terminates sample_client) second_client ''c1'' durable_backend =
          Returns (Inr (sess, ''c1'' \<noteq> [] \<and> \<not> CleanSession second_client \<and>
            storedSessions durable_backend ''c1'' \<noteq> None)) m'"
    and p: "\<forall>r. ''c1'' \<noteq> [] \<and> \<not> CleanSession second_client \<and>
          storedSessions durable_backend ''c1'' = Some r \<longrightarrow>
          sess = r \<and>
          heap m' r = (heap (after_wait (terminates sample_client) durable_backend ''c1'') r)
            \<lparr>owner := Some (addr second_client), kill_ch := Open, done_ch := Open\<rparr> \<and>
          storedSessions m' = storedSessions durable_backend"
    and q: "\<not> setupMutex m'"
    by blast
  from r run have m': "m' = ?m'" by simp
  have st: "storedSessions durable_backend ''c1'' = Some 0" "\<not> CleanSession second_client"
    by (simp_all add: durable_backend_def NewMemoryBackend_def second_client_def)
  from p st have "heap m' 0 = (heap (after_wait (terminates sample_client) durable_backend ''c1'') 0)
            \<lparr>owner := Some (addr second_client), kill_ch := Open, done_ch := Open\<rparr>"
    by simp
  then have "owner (heap ?m' 0) = Some (addr second_client)"
    unfolding m' by simp
  moreover from q have "\<not> setupMutex ?m'" unfolding m' .
  ultimately show ?thesis using run by blast
qed

text \<open>
  Claim C1 as stated fails on a closing backend: with an empty id no session is
  returned, and with clean-session false and a stored session for the id the call
  returns the closing error and resumes nothing.
\<close>

theorem Setup_closing_counterexample:
  "Setup never_done sample_client [] (NewMemoryBackend\<lparr>closing := True\<rparr>) =
     Returns (Inl ErrClosing) (NewMemoryBackend\<lparr>closing := True\<rparr>) \<and>
   \<not> CleanSession second_client \<and> storedSessions offline_backend ''c1'' = Some 0 \<and>
   Setup never_done second_client ''c1'' offline_backend = Returns (Inl ErrClosing) offline_backend"
  by (simp add: Setup_def Lock_global_def Lock_setup_def setup_return_def
      NewMemoryBackend_def offline_backend_def second_client_def)

lemma Setup_takeover_timeout:
  assumes free: "\<not> globalMutex m" "\<not> setupMutex m"
    and open_for_setup: "\<not> closing m" "cid \<noteq> []"
    and ex: "existing_session m cid = Some existingSession"
      "owner (heap m existingSession) \<noteq> None"
      "kill_ch (heap m existingSession) = Open"
    and timeout: "env (killed m cid) = Timed_out m3"
  shows "Setup env client cid m =
     (if setupMutex m3 \<and> globalMutex m3
      then Returns (Inl ErrKillTimeout) (m3\<lparr>setupMutex := False, globalMutex := False\<rparr>)
      else Fatal)"
  using assms
  by (auto simp: Setup_def Lock_global_def Lock_setup_def kill_and_wait_def
      locked_def killed_def setup_return_def Let_def existing_session_mutex)

text \<open>
  Claim C5: what the code does. Take a call of \<^verbatim>\<open>Setup\<close> with both mutexes free on a
  backend that is not closing, for a non-empty id whose existing session has an owner
  and an open kill channel. Setup closes that kill channel and releases the global
  mutex while it keeps the setup mutex, and waits. When \<^verbatim>\<open>KillTimeout\<close> elapses first, it
  returns through its two deferred unlocks without having locked the global mutex
  again: it returns the kill-timeout error only if another goroutine holds the global
  mutex at that moment (and then releases that goroutine's lock); otherwise the
  unlock of the unlocked mutex is a fatal error and the call does not return.
\<close>

theorem Setup_kill_timeout:
  assumes free: "\<not> globalMutex m" "\<not> setupMutex m"
    and open_for_setup: "\<not> closing m" "cid \<noteq> []"
    and ex: "existing_session m cid = Some existingSession"
      "owner (heap m existingSession) \<noteq> None"
      "kill_ch (heap m existingSession) = Open"
    and timeout: "env (killed m cid) = Timed_out m3"
  shows "kill_ch (heap (killed m cid) existingSession) = Closed \<and>
    \<not> globalMutex (killed m cid) \<and> setupMutex (killed m cid) \<and>
    Setup env client cid m =
     (if setupMutex m3 \<and> globalMutex m3
      then Returns (Inl ErrKillTimeout) (m3\<lparr>setupMutex := False, globalMutex := False\<rparr>)
      else Fatal)"
proof -
  have "kill_ch (heap (killed m cid) existingSession) = Closed \<and>
    \<not> globalMutex (killed m cid) \<and> setupMutex (killed m cid)"
    using ex by (simp add: killed_def locked_def)
  with Setup_takeover_timeout [where env = env, OF assms] show ?thesis by blast
qed

theorem Setup_kill_timeout_witness:
  "Setup never_done second_client ''c1'' durable_backend = Fatal"
proof -
  have a: "\<not> globalMutex durable_backend" "\<not> setupMutex durable_backend"
    "\<not> closing durable_backend" "''c1'' \<noteq> []"
    by (simp_all add: durable_backend_def NewMemoryBackend_def)
  have b: "existing_session durable_backend ''c1'' = Some 0"
    "owner (heap durable_backend 0) \<noteq> None" "kill_ch (heap durable_backend 0) = Open"
    by (simp_all add: existing_session_def durable_backend_def NewMemoryBackend_def)
  have c: "never_done (killed durable_backend ''c1'') = Timed_out (killed durable_backend ''c1'')"
    by (simp add: never_done_def)
  have d: "\<not> globalMutex (killed durable_backend ''c1'')"
    by (simp add: killed_def b)
  from Setup_kill_timeout [where env = never_done and client = second_client, OF a b c] d
  show ?thesis by simp
qed

subsection \<open>Stored sessions along a run\<close>

lemma keeps_store_refl: "keeps_store m m"
  by (simp add: keeps_store_def)

lemma keeps_store_trans: "keeps_store a b \<Longrightarrow> keeps_store b c \<Longrightarrow> keeps_store a c"
  by (auto simp: keeps_store_def)

lemma ran_delete_subset: "ran (f(k := None)) \<subseteq> ran f"
  by (auto simp: ran_def split: if_splits)

lemma Authenticate_keeps: "Authenticate client user password m = Returns v m' \<Longrightarrow> keeps_store m m'"
  by (auto simp: Authenticate_def Lock_global_def unlock_return_def keeps_store_def
      split: option.splits if_splits)

lemma Dequeue_keeps: "Dequeue pick close_closed client m = Returns d m' \<Longrightarrow> keeps_store m m'"
  by (auto simp: Dequeue_def Let_def keeps_store_def
      split: select_case.splits list.splits if_splits)

lemma QueueRetained_keeps: "QueueRetained client topic m = Returns e m' \<Longrightarrow> keeps_store m m'"
  by (auto simp: QueueRetained_def queue_values_eq Let_def keeps_store_def split: bool.splits)

lemma deliver_keeps:
  "deliver never_room client msg rs m = Delivered m' \<or>
   deliver never_room client msg rs m = Queue_full m' \<or>
   deliver never_room client msg rs m = Send_waits m'
     \<Longrightarrow> storedSessions m' = storedSessions m \<and> temporarySessions m' = temporarySessions m \<and>
         next_ref m' = next_ref m \<and> globalMutex m' = globalMutex m"
  by (induction rs arbitrary: m) (auto simp: never_room_def send_def split: if_splits)

lemma Publish_keeps:
  "Publish never_room tkeys skeys client msg m = Returns e m' \<or>
   Publish never_room tkeys skeys client msg m = Blocks m'
     \<Longrightarrow> keeps_store m m'"
  by (auto simp: Publish_def Lock_global_def unlock_return_def keeps_store_def
      split: option.splits delivery.splits if_splits dest!: deliver_keeps [OF disjI1]
        deliver_keeps [OF disjI2, OF disjI1] deliver_keeps [OF disjI2, OF disjI2])

lemma Terminate_keeps: "Terminate client m = Returns e m' \<Longrightarrow> keeps_store m m'"
  using ran_delete_subset [of "temporarySessions m" "addr client"]
  by (auto simp: Terminate_def Lock_global_def unlock_return_def Let_def keeps_store_def
      split: option.splits if_splits)

lemma Close_keeps: "Close tkeys skeys fires m = Returns b m' \<Longrightarrow> keeps_store m m'"
  by (auto simp: Close_def Lock_global_def Let_def keeps_store_def
      split: option.splits if_splits prod.splits)

lemma Setup_waits_keeps:
  "setupMutex m \<Longrightarrow> Setup env client cid m = Blocks m' \<Longrightarrow> keeps_store m m'"
  by (auto simp: Setup_def Lock_global_def Lock_setup_def keeps_store_def
      split: option.splits if_splits)

lemma other_step_keeps: "other_step m m' \<Longrightarrow> keeps_store m m'"
proof (induction rule: other_step.induct)
  case (authenticate client user password m v m')
  then show ?case by (rule Authenticate_keeps)
next
  case (dequeue pick close_closed client m d m')
  then show ?case by (rule Dequeue_keeps)
next
  case (queue_retained client topic m e m')
  then show ?case by (rule QueueRetained_keeps)
next
  case (publish tkeys skeys client msg m e m')
  then show ?case using Publish_keeps by blast
next
  case (publish_waits tkeys skeys client msg m m')
  then show ?case using Publish_keeps by blast
next
  case (terminate client m e m')
  then show ?case by (rule Terminate_keeps)
next
  case (close tkeys skeys fires m b m')
  then show ?case by (rule Close_keeps)
next
  case (setup_waits m env client cid m')
  then show ?case by (rule Setup_waits_keeps)
qed (auto simp: keeps_store_def QueueOffline_def Subscribe_def Unsubscribe_def
    StoreRetained_def ClearRetained_def)

lemma other_steps_keep: "other_step\<^sup>*\<^sup>* m m' \<Longrightarrow> keeps_store m m'"
  by (induction rule: rtranclp_induct) (auto intro: keeps_store_refl keeps_store_trans other_step_keeps)

lemma env_allowed_keeps: "env_allowed env \<Longrightarrow> keeps_store m (wait_backend (env m))"
  by (simp add: env_allowed_def other_steps_keep)

lemma keeps_store_killed: "keeps_store m (killed m cid)"
  by (simp add: keeps_store_def killed_def locked_def split: option.split)

lemma Setup_through:
  assumes ok: "Setup env client cid m = Returns (Inr (sess, resumed)) m'"
    and env: "env_allowed env" and named: "cid \<noteq> []"
  shows "\<exists>mw. keeps_store m mw \<and> setup_session client cid mw = Returns (Inr (sess, resumed)) m'"
proof (cases "takes_over m cid")
  case True
  with Setup_named [OF ok named] obtain m3 where m3: "env (killed m cid) = Done_fired m3"
    "setup_session client cid (m3\<lparr>globalMutex := True\<rparr>) = Returns (Inr (sess, resumed)) m'"
    by auto
  have "keeps_store (killed m cid) m3"
    using env_allowed_keeps [OF env, of "killed m cid"] m3(1) by (simp add: wait_backend_def)
  then have "keeps_store m (m3\<lparr>globalMutex := True\<rparr>)"
    using keeps_store_killed [of m cid] by (auto simp: keeps_store_def)
  with m3(2) show ?thesis by blast
next
  case False
  with Setup_named [OF ok named]
  have "setup_session client cid (locked m) = Returns (Inr (sess, resumed)) m'" by simp
  moreover have "keeps_store m (locked m)" by (simp add: keeps_store_def locked_def)
  ultimately show ?thesis by blast
qed

lemma Setup_failed_keeps:
  assumes "Setup env client cid m = Returns (Inl e) m'" "env_allowed env"
  shows "keeps_store m m'"
proof -
  have "m' = m \<or> (\<exists>m3. env (killed m cid) = Timed_out m3 \<and>
      m' = m3\<lparr>setupMutex := False, globalMutex := False\<rparr>)"
    using assms(1) setup_session_Inl
    by (auto simp: Setup_def Lock_global_def Lock_setup_def kill_and_wait_def
        locked_def killed_def setup_return_def Let_def existing_session_mutex
        newMemorySession_def alloc_def
        split: option.splits if_splits wait.splits)
  then show ?thesis
  proof
    assume "m' = m" then show ?thesis by (simp add: keeps_store_refl)
  next
    assume "\<exists>m3. env (killed m cid) = Timed_out m3 \<and>
      m' = m3\<lparr>setupMutex := False, globalMutex := False\<rparr>"
    then obtain m3 where m3: "env (killed m cid) = Timed_out m3"
      "m' = m3\<lparr>setupMutex := False, globalMutex := False\<rparr>" by blast
    have "keeps_store (killed m cid) m3"
      using env_allowed_keeps [OF assms(2), of "killed m cid"] m3(1) by (simp add: wait_backend_def)
    then show ?thesis
      using keeps_store_killed [of m cid] m3(2) by (auto simp: keeps_store_def)
  qed
qed

lemma setup_session_Blocks: "setup_session client cid m \<noteq> Blocks m'"
  by (auto simp: setup_session_def setup_return_def newMemorySession_def alloc_def Let_def
      split: option.splits if_splits)

lemma Setup_waiting_keeps:
  assumes "Setup env client cid m = Blocks m'" "env_allowed env"
  shows "keeps_store m m'"
proof -
  have "m' = m \<or> m' = m\<lparr>globalMutex := True\<rparr> \<or> env (killed m cid) = Done_fired m'"
    using assms(1) setup_session_Blocks
    by (auto simp: Setup_def Lock_global_def Lock_setup_def kill_and_wait_def
        locked_def killed_def setup_return_def Let_def existing_session_mutex
        newMemorySession_def alloc_def
        split: option.splits if_splits wait.splits)
  then show ?thesis
  proof (elim disjE)
    assume "env (killed m cid) = Done_fired m'"
    then have "keeps_store (killed m cid) m'"
      using env_allowed_keeps [OF assms(2), of "killed m cid"] by (simp add: wait_backend_def)
    then show ?thesis
      using keeps_store_killed [of m cid] by (auto simp: keeps_store_def)
  qed (simp_all add: keeps_store_def)
qed

lemma Setup_not_resumed:
  assumes ok: "Setup env client cid m = Returns (Inr (sess, resumed)) m'"
    and env: "env_allowed env" and none: "storedSessions m cid = None"
  shows "\<not> resumed"
proof (cases "cid = []")
  case True
  from Setup_empty_id [OF ok [unfolded True]] show ?thesis by simp
next
  case False
  from Setup_through [OF ok env False] obtain mw where
    k: "keeps_store m mw" and s: "setup_session client cid mw = Returns (Inr (sess, resumed)) m'"
    by blast
  have nw: "storedSessions mw cid = None" using k none by (simp add: keeps_store_def)
  show ?thesis
  proof (cases "CleanSession client")
    case True
    from setup_session_clean [OF s True] show ?thesis by simp
  next
    case False
    from setup_session_create [OF s False nw] show ?thesis by simp
  qed
qed

lemma store_inv_keeps: "store_inv m g \<Longrightarrow> keeps_store m m' \<Longrightarrow> store_inv m' g"
  by (auto simp: store_inv_def keeps_store_def)

lemma ran_update_subset: "ran (f(k \<mapsto> v)) \<subseteq> insert v (ran f)"
  by (auto simp: ran_def split: if_splits)

lemma below_Suc_insert:
  assumes "\<forall>r \<in> R. r < (n::nat)" "S \<subseteq> insert n R"
  shows "\<forall>r \<in> S. r < Suc n"
  using assms by (auto simp: less_Suc_eq)

lemma below_Suc_subset:
  assumes "\<forall>r \<in> R. r < (n::nat)" "S \<subseteq> R"
  shows "\<forall>r \<in> S. r < Suc n"
  using assms by (auto simp: less_Suc_eq)

lemma store_inv_Setup:
  assumes inv: "store_inv m g"
    and ok: "Setup env client cid m = Returns (Inr (sess, resumed)) m'"
    and env: "env_allowed env"
  shows "store_inv m' (g(cid \<mapsto> CleanSession client))"
proof (cases "cid = []")
  case True
  note e = Setup_empty_id [OF ok [unfolded True]]
  have t: "ran (temporarySessions m') \<subseteq> insert (next_ref m) (ran (temporarySessions m))"
    using e ran_update_subset [of "temporarySessions m" "addr client" sess] by simp
  have 1: "\<forall>c. storedSessions m' c \<noteq> None \<longrightarrow> (g(cid \<mapsto> CleanSession client)) c = Some False"
    using inv e True by (auto simp: store_inv_def)
  have 2: "storedSessions m' [] = None"
    using inv e by (simp add: store_inv_def)
  have 3: "\<forall>r \<in> ran (storedSessions m'). r < next_ref m'"
    using inv e below_Suc_subset [of "ran (storedSessions m)" "next_ref m" "ran (storedSessions m)"]
    by (simp add: store_inv_def)
  have 4: "\<forall>r \<in> ran (temporarySessions m'). r < next_ref m'"
    using inv e below_Suc_insert [OF _ t] by (simp add: store_inv_def)
  show ?thesis unfolding store_inv_def using 1 2 3 4 by blast
next
  case False
  from Setup_through [OF ok env False] obtain mw where
    k: "keeps_store m mw" and s: "setup_session client cid mw = Returns (Inr (sess, resumed)) m'"
    by blast
  have invw: "store_inv mw g" using inv k by (rule store_inv_keeps)
  show ?thesis
  proof (cases "CleanSession client")
    case True
    note e = setup_session_clean [OF s True]
    have t: "ran (temporarySessions m') \<subseteq> insert (next_ref mw) (ran (temporarySessions mw))"
      using e ran_update_subset [of "temporarySessions mw" "addr client" sess] by simp
    have st: "ran (storedSessions m') \<subseteq> ran (storedSessions mw)"
      using e ran_delete_subset [of "storedSessions mw" cid] by simp
    have 1: "\<forall>c. storedSessions m' c \<noteq> None \<longrightarrow> (g(cid \<mapsto> CleanSession client)) c = Some False"
      using invw e by (auto simp: store_inv_def)
    have 2: "storedSessions m' [] = None"
      using invw e by (simp add: store_inv_def)
    have 3: "\<forall>r \<in> ran (storedSessions m'). r < next_ref m'"
      using invw e below_Suc_subset [OF _ st] by (simp add: store_inv_def)
    have 4: "\<forall>r \<in> ran (temporarySessions m'). r < next_ref m'"
      using invw e below_Suc_insert [OF _ t] by (simp add: store_inv_def)
    show ?thesis unfolding store_inv_def using 1 2 3 4 by blast
  next
    case nclean: False
    show ?thesis
    proof (cases "storedSessions mw cid")
      case None
      note e = setup_session_create [OF s nclean None]
      have st: "ran (storedSessions m') \<subseteq> insert (next_ref mw) (ran (storedSessions mw))"
        using e ran_update_subset [of "storedSessions mw" cid sess] by simp
      have 1: "\<forall>c. storedSessions m' c \<noteq> None \<longrightarrow> (g(cid \<mapsto> CleanSession client)) c = Some False"
        using invw e nclean by (auto simp: store_inv_def)
      have 2: "storedSessions m' [] = None"
        using invw e False by (simp add: store_inv_def)
      have 3: "\<forall>r \<in> ran (storedSessions m'). r < next_ref m'"
        using invw e below_Suc_insert [OF _ st] by (simp add: store_inv_def)
      have 4: "\<forall>r \<in> ran (temporarySessions m'). r < next_ref m'"
        using invw e below_Suc_subset [of "ran (temporarySessions mw)" "next_ref mw" "ran (temporarySessions mw)"]
        by (simp add: store_inv_def)
      show ?thesis unfolding store_inv_def using 1 2 3 4 by blast
    next
      case (Some r)
      note e = setup_session_resume [OF s nclean Some]
      have 1: "\<forall>c. storedSessions m' c \<noteq> None \<longrightarrow> (g(cid \<mapsto> CleanSession client)) c = Some False"
        using invw e nclean by (auto simp: store_inv_def)
      have 2: "storedSessions m' [] = None"
        using invw e by (simp add: store_inv_def)
      have 3: "\<forall>r \<in> ran (storedSessions m'). r < next_ref m'"
        using invw e by (simp add: store_inv_def)
      have 4: "\<forall>r \<in> ran (temporarySessions m'). r < next_ref m'"
        using invw e by (simp add: store_inv_def)
      show ?thesis unfolding store_inv_def using 1 2 3 4 by blast
    qed
  qed
qed

lemma store_inv_new: "store_inv NewMemoryBackend Map.empty"
  by (simp add: store_inv_def NewMemoryBackend_def)

lemma reach_store_inv: "reach m g \<Longrightarrow> store_inv m g"
proof (induction rule: reach.induct)
  case new
  show ?case by (rule store_inv_new)
next
  case (configured m g n t creds)
  then show ?case by (simp add: store_inv_def)
next
  case (other m g m')
  then show ?case using store_inv_keeps other_step_keeps by blast
next
  case (setup_done m g env client cid v m')
  obtain sess resumed where v: "v = (sess, resumed)" by (cases v)
  from setup_done.IH setup_done.hyps(3) [unfolded v] setup_done.hyps(2)
  show ?case by (rule store_inv_Setup)
next
  case (setup_failed m g env client cid e m')
  then show ?case using store_inv_keeps Setup_failed_keeps by blast
next
  case (setup_waiting m g env client cid m')
  then show ?case using store_inv_keeps Setup_waiting_keeps by blast
qed

text \<open>
  Claim C10. In every backend a run reaches, an id has a stored session only if the
  most recent Setup that returned a session for it had clean-session false. A Setup
  with a non-empty id and clean-session that returns a session there leaves no stored
  session for the id: the session it returns is recorded in the temporary-session map
  and is no session of the stored-session map, resumed is false, and the backend it
  leaves is reached again, with clean-session true on record for the id. And where the
  most recent successful Setup of an id had clean-session true, a Setup of that id with
  clean-session false finds no stored session and returns resumed false.
\<close>

theorem clean_setup_leaves_no_stored_session:
  assumes "reach m g"
  shows "(\<forall>cid. storedSessions m cid \<noteq> None \<longrightarrow> g cid = Some False) \<and>
    (\<forall>env client cid sess resumed m'.
       env_allowed env \<and> cid \<noteq> [] \<and> CleanSession client \<and>
       Setup env client cid m = Returns (Inr (sess, resumed)) m' \<longrightarrow>
         \<not> resumed \<and> storedSessions m' cid = None \<and> sess \<notin> ran (storedSessions m') \<and>
         temporarySessions m' (addr client) = Some sess \<and>
         reach m' (g(cid \<mapsto> True))) \<and>
    (\<forall>env client cid sess resumed m'.
       env_allowed env \<and> g cid = Some True \<and> \<not> CleanSession client \<and>
       Setup env client cid m = Returns (Inr (sess, resumed)) m' \<longrightarrow>
         storedSessions m cid = None \<and> \<not> resumed \<and> reach m' (g(cid \<mapsto> False)))"
proof (intro conjI allI impI)
  fix cid
  assume "storedSessions m cid \<noteq> None"
  then show "g cid = Some False"
    using reach_store_inv [OF assms] by (simp add: store_inv_def)
next
  fix env client cid sess resumed m'
  assume a: "env_allowed env \<and> cid \<noteq> [] \<and> CleanSession client \<and>
       Setup env client cid m = Returns (Inr (sess, resumed)) m'"
  then have env: "env_allowed env" and named: "cid \<noteq> []" and clean: "CleanSession client"
    and ok: "Setup env client cid m = Returns (Inr (sess, resumed)) m'" by auto
  from Setup_through [OF ok env named] obtain mw where
    k: "keeps_store m mw" and s: "setup_session client cid mw = Returns (Inr (sess, resumed)) m'"
    by blast
  note e = setup_session_clean [OF s clean]
  have invw: "store_inv mw g" using reach_store_inv [OF assms] k by (rule store_inv_keeps)
  have "sess \<notin> ran (storedSessions mw)"
    using invw e by (auto simp: store_inv_def)
  then have fresh: "sess \<notin> ran (storedSessions m')"
    using e ran_delete_subset [of "storedSessions mw" cid] by auto
  have r: "reach m' (g(cid \<mapsto> True))"
    using reach.setup_done [OF assms env ok] clean by simp
  show "\<not> resumed" using e by simp
  show "storedSessions m' cid = None" using e by simp
  show "sess \<notin> ran (storedSessions m')" by (rule fresh)
  show "temporarySessions m' (addr client) = Some sess" using e by simp
  show "reach m' (g(cid \<mapsto> True))" by (rule r)
next
  fix env client cid sess resumed m'
  assume a: "env_allowed env \<and> g cid = Some True \<and> \<not> CleanSession client \<and>
       Setup env client cid m = Returns (Inr (sess, resumed)) m'"
  then have env: "env_allowed env" and last: "g cid = Some True" and nclean: "\<not> CleanSession client"
    and ok: "Setup env client cid m = Returns (Inr (sess, resumed)) m'" by auto
  have none: "storedSessions m cid = None"
    using reach_store_inv [OF assms] last by (auto simp: store_inv_def)
  show "storedSessions m cid = None" by (rule none)
  show "\<not> resumed" using ok env none by (rule Setup_not_resumed)
  show "reach m' (g(cid \<mapsto> False))"
    using reach.setup_done [OF assms env ok] nclean by simp
qed

lemma env_allowed_never_done: "env_allowed never_done"
  by (simp add: env_allowed_def never_done_def wait_backend_def)

lemma env_allowed_terminates: "env_allowed (terminates victim)"
  unfolding env_allowed_def
proof
  fix m
  show "other_step\<^sup>*\<^sup>* m (wait_backend (terminates victim m))"
  proof (cases "Terminate victim m")
    case (Returns e m')
    then have "other_step m m'" by (rule other_step.terminate)
    then show ?thesis using Returns by (simp add: terminates_def wait_backend_def)
  qed (simp_all add: terminates_def wait_backend_def)
qed

theorem clean_setup_leaves_no_stored_session_witness:
  "reach clean_backend [''c1'' \<mapsto> True] \<and>
   storedSessions clean_backend ''c1'' = None \<and>
   temporarySessions clean_backend 3 = Some 0 \<and>
   Setup (terminates clean_client) second_client ''c1'' clean_backend =
     Returns (Inr (1, False)) reconnected_backend \<and>
   reach reconnected_backend [''c1'' \<mapsto> False]"
proof -
  have run1: "Setup never_done clean_client ''c1'' NewMemoryBackend =
      Returns (Inr (0, False)) clean_backend"
    by (simp add: Setup_def Lock_global_def Lock_setup_def existing_session_def
        setup_session_def setup_return_def newMemorySession_def alloc_def Let_def
        clean_backend_def NewMemoryBackend_def clean_client_def durable_session_def fun_eq_iff)
  have c: "CleanSession clean_client" "''c1'' \<noteq> []" "\<not> CleanSession second_client"
    by (simp_all add: clean_client_def second_client_def)
  from clean_setup_leaves_no_stored_session [OF reach.new] env_allowed_never_done c run1
  have r1: "reach clean_backend [''c1'' \<mapsto> True]"
    and s1: "storedSessions clean_backend ''c1'' = None"
    and t1: "temporarySessions clean_backend (addr clean_client) = Some 0"
    by blast+
  have run2: "Setup (terminates clean_client) second_client ''c1'' clean_backend =
      Returns (Inr (1, False)) reconnected_backend"
    by (simp add: Setup_def Lock_global_def Lock_setup_def existing_session_def kill_and_wait_def
        setup_session_def setup_return_def newMemorySession_def alloc_def Let_def terminates_def
        Terminate_def unlock_return_def
        clean_backend_def reconnected_backend_def NewMemoryBackend_def second_client_def
        clean_client_def durable_session_def fun_eq_iff)
  have g: "[''c1'' \<mapsto> True] ''c1'' = Some True" by simp
  from clean_setup_leaves_no_stored_session [OF r1] env_allowed_terminates [of clean_client] g c(3) run2
  have "reach reconnected_backend ([''c1'' \<mapsto> True](''c1'' \<mapsto> False))"
    by blast
  then have r2: "reach reconnected_backend [''c1'' \<mapsto> False]" by simp
  show ?thesis using r1 s1 t1 run2 r2 by (simp add: clean_client_def)
qed

end
